theory Spec2Isabelle
  imports Complex_Main "HOL-Library.Sublist"
begin

section \<open>The validator agent of the task orchestrator\<close>

text \<open>
  This theory embeds \<^verbatim>\<open>src/agents/validator.js\<close> (class \<^verbatim>\<open>ValidatorAgent\<close>).
  Conventions of the embedding:
  \<^item> JavaScript strings are modelled as ASCII strings; \<^verbatim>\<open>toLowerCase\<close> changes the
    letters A to Z only and \<^verbatim>\<open>length\<close> counts characters.
  \<^item> JavaScript numbers are IEEE doubles. A double is modelled by the rational number it
    denotes, and \<^verbatim>\<open>NaN\<close> by \<open>None\<close>. Counts, weights, points and midpoints are
    integers or halves of integers below \<open>2\<^sup>5\<^sup>2\<close>, on which the sums and differences of the
    source are exact; every other division and multiplication of the source is rounded to
    the nearest double by \<open>fl\<close>. The exponent of a double is taken to be unbounded (the
    quotients of this program are far from overflow and from the subnormal numbers).
  \<^item> A plan has fewer than \<open>2\<^sup>3\<^sup>2\<close> steps (the limit of an array), and the numbers that a
    duration text writes, and their total over the plan, are below \<open>2\<^sup>5\<^sup>2\<close>: they are
    doubles, and a template literal prints them in plain decimal.
  \<^item> A property of a step that the source tests before it reads it
    (\<^verbatim>\<open>step.resources && ...\<close>) is optional; \<open>None\<close> is \<^verbatim>\<open>undefined\<close>.
    Step ids and dependency ids are natural numbers.
  \<^item> A thrown exception is the \<open>Inl\<close> branch of a sum.
\<close>

subsection \<open>Strings and numbers\<close>

definition is_digit :: "char \<Rightarrow> bool" where
  "is_digit c = (c \<in> set ''0123456789'')"

text \<open>\<^verbatim>\<open>\s\<close> of a regular expression, on ASCII: space, tab, line feed, vertical tab,
  form feed, carriage return.\<close>

definition is_space :: "char \<Rightarrow> bool" where
  "is_space c = (c \<in> set [CHR '' '', CHR 0x09, CHR 0x0A, CHR 0x0B, CHR 0x0C, CHR 0x0D])"

definition digit_val :: "char \<Rightarrow> nat" where
  "digit_val c = of_char c - 48"

text \<open>\<^verbatim>\<open>parseInt\<close> on a string of decimal digits (the only strings the source passes
  to it are the groups captured by \<^verbatim>\<open>(\d+)\<close>).\<close>

definition parseInt :: "string \<Rightarrow> nat" where
  "parseInt ds = foldl (\<lambda>n c. 10 * n + digit_val c) 0 ds"

definition digit_char :: "nat \<Rightarrow> char" where
  "digit_char d = ''0123456789'' ! d"

text \<open>The decimal text of an integer, as a template literal prints it.\<close>

fun show_nat :: "nat \<Rightarrow> string" where
  "show_nat n = (if n < 10 then [digit_char n] else show_nat (n div 10) @ [digit_char (n mod 10)])"

declare show_nat.simps [simp del]

definition show_int :: "int \<Rightarrow> string" where
  "show_int i = (if i < 0 then CHR ''-'' # show_nat (nat (- i)) else show_nat (nat i))"

definition lower_char :: "char \<Rightarrow> char" where
  "lower_char c =
     (case map_of (zip ''ABCDEFGHIJKLMNOPQRSTUVWXYZ'' ''abcdefghijklmnopqrstuvwxyz'') c of
        Some l \<Rightarrow> l
      | None \<Rightarrow> c)"

definition toLowerCase :: "string \<Rightarrow> string" where
  "toLowerCase s = map lower_char s"

text \<open>\<^verbatim>\<open>s.includes(sub)\<close>: \<open>sub\<close> occurs in \<open>s\<close> as a contiguous substring.\<close>

fun includes_str :: "string \<Rightarrow> string \<Rightarrow> bool" where
  "includes_str [] sub = (sub = [])"
| "includes_str (c # s) sub = (prefix sub (c # s) \<or> includes_str s sub)"

text \<open>\<^verbatim>\<open>Math.round\<close> rounds a half towards plus infinity; \<^verbatim>\<open>Math.ceil\<close> is the ceiling.\<close>

definition js_round :: "rat \<Rightarrow> int" where
  "js_round x = \<lfloor>x + 1 / 2\<rfloor>"

text \<open>Rounding to a double. \<open>bit_length n\<close> is the number of binary digits of \<open>n\<close>;
  \<open>pow2 e\<close> is the power of two with an integer exponent; \<open>binade x\<close> is the exponent \<open>e\<close>
  with \<open>2\<^sup>e \<le> x < 2\<^sup>e\<^sup>+\<^sup>1\<close> for a positive \<open>x\<close>. A double has 53 significant binary digits,
  so the doubles between \<open>2\<^sup>e\<close> and \<open>2\<^sup>e\<^sup>+\<^sup>1\<close> are the multiples of \<open>2\<^sup>e\<^sup>-\<^sup>5\<^sup>2\<close>, and \<open>fl x\<close> is the
  multiple nearest to \<open>x\<close>, the one with the even factor when two are equally near.\<close>

fun bit_length :: "nat \<Rightarrow> nat" where
  "bit_length n = (if n = 0 then 0 else Suc (bit_length (n div 2)))"

declare bit_length.simps [simp del]

definition pow2 :: "int \<Rightarrow> rat" where
  "pow2 e = (if 0 \<le> e then 2 ^ nat e else 1 / 2 ^ nat (- e))"

definition binade :: "rat \<Rightarrow> int" where
  "binade x =
     (if 1 \<le> x then int (bit_length (nat \<lfloor>x\<rfloor>)) - 1
      else - int (bit_length (nat (\<lceil>1 / x\<rceil> - 1))))"

definition round_half_even :: "rat \<Rightarrow> int" where
  "round_half_even m =
     (let f = \<lfloor>m\<rfloor> in
      if m - of_int f < 1 / 2 then f
      else if 1 / 2 < m - of_int f then f + 1
      else if even f then f else f + 1)"

definition fl :: "rat \<Rightarrow> rat" where
  "fl x =
     (if x = 0 then 0
      else if x < 0 then - (of_int (round_half_even (- x / pow2 (binade (- x) - 52)))
                            * pow2 (binade (- x) - 52))
      else of_int (round_half_even (x / pow2 (binade x - 52))) * pow2 (binade x - 52))"

text \<open>A template literal prints \<^verbatim>\<open>undefined\<close> for a missing property.\<close>

definition template :: "string option \<Rightarrow> string" where
  "template v = (case v of None \<Rightarrow> ''undefined'' | Some s \<Rightarrow> s)"

subsection \<open>Exceptions\<close>

text \<open>The only exception the modelled inputs can raise is the \<^verbatim>\<open>TypeError\<close> of reading a
  property of \<^verbatim>\<open>undefined\<close> or \<^verbatim>\<open>null\<close>; the argument names the property read.\<close>

datatype js_exception = TypeError string

subsection \<open>Plan steps\<close>

record step =
  step_id :: nat
  step_title :: "string option"
  step_description :: "string option"
  step_duration :: "string option"
  step_resources :: "string list option"
  step_dependencies :: "nat list option"

subsection \<open>Durations\<close>

text \<open>The regular expression \<^verbatim>\<open>/(\d+)-(\d+)/\<close> at one start position: the longest run of
  digits, a hyphen, the longest run of digits. (A shorter first run is followed by a
  digit, never by the hyphen, so backtracking finds nothing else.)\<close>

definition match_range_at :: "string \<Rightarrow> (string \<times> string) option" where
  "match_range_at s =
     (let d1 = takeWhile is_digit s; r = dropWhile is_digit s in
      if d1 = [] then None
      else (case r of
              [] \<Rightarrow> None
            | c # r' \<Rightarrow>
                if c = CHR ''-'' \<and> takeWhile is_digit r' \<noteq> []
                then Some (d1, takeWhile is_digit r') else None))"

text \<open>\<^verbatim>\<open>duration.match(/(\d+)-(\d+)/)\<close>: the leftmost start position that matches; the
  result holds the two captured groups.\<close>

fun match_range :: "string \<Rightarrow> (string \<times> string) option" where
  "match_range [] = None"
| "match_range (c # s) =
     (case match_range_at (c # s) of Some m \<Rightarrow> Some m | None \<Rightarrow> match_range s)"

text \<open>\<^verbatim>\<open>(parseInt(match[1]) + parseInt(match[2])) / 2\<close>\<close>

definition avg_of_match :: "string \<times> string \<Rightarrow> rat" where
  "avg_of_match m = (of_nat (parseInt (fst m)) + of_nat (parseInt (snd m))) / 2"

text \<open>The \<^verbatim>\<open>forEach\<close> of \<^verbatim>\<open>calculatePlanDuration\<close> with its accumulator
  \<^verbatim>\<open>totalHours\<close>; \<^verbatim>\<open>step.duration.match\<close> throws when the step has no duration. The
  midpoints and their sum are exact on the numbers below \<open>2\<^sup>5\<^sup>2\<close> of the conventions, and the
  template literals of the result print such an integer in plain decimal.\<close>

fun totalHours_loop :: "step list \<Rightarrow> rat \<Rightarrow> js_exception + rat" where
  "totalHours_loop [] totalHours = Inr totalHours"
| "totalHours_loop (s # plan) totalHours =
     (case step_duration s of
        None \<Rightarrow> Inl (TypeError ''match'')
      | Some d \<Rightarrow>
          (case match_range d of
             Some m \<Rightarrow> totalHours_loop plan (totalHours + avg_of_match m)
           | None \<Rightarrow> totalHours_loop plan (totalHours + 2)))"

definition calculatePlanDuration :: "step list \<Rightarrow> js_exception + string" where
  "calculatePlanDuration plan =
     (case totalHours_loop plan 0 of
        Inl e \<Rightarrow> Inl e
      | Inr totalHours \<Rightarrow>
          Inr (if totalHours \<le> 8 then show_int \<lceil>totalHours\<rceil> @ '' hours''
               else if totalHours \<le> 40 then show_int \<lceil>fl (totalHours / 8)\<rceil> @ '' days''
               else show_int \<lceil>fl (totalHours / 40)\<rceil> @ '' weeks''))"

text \<open>\<^verbatim>\<open>duration.match(/(\d+)\s*weeks/)\<close> of \<^verbatim>\<open>assessTimeline\<close>: the leftmost run of
  digits that is followed, after any white space, by the word \<open>weeks\<close>; the result is
  the captured run.\<close>

definition match_weeks_at :: "string \<Rightarrow> string option" where
  "match_weeks_at s =
     (let d = takeWhile is_digit s; r = dropWhile is_space (dropWhile is_digit s) in
      if d \<noteq> [] \<and> prefix ''weeks'' r then Some d else None)"

fun match_weeks :: "string \<Rightarrow> string option" where
  "match_weeks [] = None"
| "match_weeks (c # s) =
     (case match_weeks_at (c # s) of Some d \<Rightarrow> Some d | None \<Rightarrow> match_weeks s)"

record timeline_status =
  ts_status :: bool
  ts_message :: string
  ts_assessment :: string
  ts_recommendation :: string

text \<open>\<^verbatim>\<open>assessTimeline\<close>; \<open>ts_status\<close> is \<open>True\<close> for \<^verbatim>\<open>'passed'\<close> and \<open>False\<close> for
  \<^verbatim>\<open>'warning'\<close>. (\<^verbatim>\<open>daysMatch\<close> is computed and never read.)\<close>

definition assessTimeline :: "string \<Rightarrow> nat \<Rightarrow> timeline_status" where
  "assessTimeline duration stepCount =
     (if (case match_weeks duration of None \<Rightarrow> False | Some w \<Rightarrow> parseInt w > 4) then
        \<lparr>ts_status = False,
         ts_message = ''Timeline may be too long for effective execution'',
         ts_assessment = ''Long'',
         ts_recommendation = ''Consider breaking into phases or reducing scope''\<rparr>
      else if stepCount > 10 then
        \<lparr>ts_status = False,
         ts_message = ''Many steps may complicate timeline management'',
         ts_assessment = ''Complex'',
         ts_recommendation = ''Consider consolidating or parallelizing steps''\<rparr>
      else
        \<lparr>ts_status = True,
         ts_message = ''Timeline appears reasonable'',
         ts_assessment = ''Good'',
         ts_recommendation = ''Monitor progress regularly''\<rparr>)"

record unbalanced_step =
  ub_step :: nat
  ub_title :: "string option"
  ub_duration :: string
  ub_difference :: rat

text \<open>The \<^verbatim>\<open>forEach\<close> of \<^verbatim>\<open>identifyUnbalancedDurations\<close>: \<open>index\<close> is the index of the
  head of the list, \<open>previousDuration\<close> is \<open>None\<close> for \<^verbatim>\<open>null\<close>. The test
  \<^verbatim>\<open>previousDuration && ...\<close> fails for \<^verbatim>\<open>null\<close> and for the number 0.\<close>

fun unbalanced_loop ::
  "step list \<Rightarrow> nat \<Rightarrow> rat option \<Rightarrow> unbalanced_step list \<Rightarrow> js_exception + unbalanced_step list"
where
  "unbalanced_loop [] index previousDuration unbalanced = Inr unbalanced"
| "unbalanced_loop (s # plan) index previousDuration unbalanced =
     (case step_duration s of
        None \<Rightarrow> Inl (TypeError ''match'')
      | Some d \<Rightarrow>
          (case match_range d of
             None \<Rightarrow> unbalanced_loop plan (index + 1) previousDuration unbalanced
           | Some m \<Rightarrow>
               (let avgDuration = avg_of_match m in
                unbalanced_loop plan (index + 1) (Some avgDuration)
                  (case previousDuration of
                     None \<Rightarrow> unbalanced
                   | Some p \<Rightarrow>
                       if p \<noteq> 0 \<and> \<bar>avgDuration - p\<bar> > 4
                       then unbalanced @
                         [\<lparr>ub_step = index + 1, ub_title = step_title s, ub_duration = d,
                           ub_difference = \<bar>avgDuration - p\<bar>\<rparr>]
                       else unbalanced))))"

definition identifyUnbalancedDurations :: "step list \<Rightarrow> js_exception + unbalanced_step list" where
  "identifyUnbalancedDurations plan = unbalanced_loop plan 0 None []"

subsection \<open>The dependency graph\<close>

text \<open>The object \<^verbatim>\<open>graph\<close> has one property per step id. \<^verbatim>\<open>Object.keys\<close> and
  \<^verbatim>\<open>Object.entries\<close> list integer keys in ascending order, so the graph is an
  association list sorted by key; a later step with the same id overwrites the entry.\<close>

type_synonym graph = "(nat \<times> nat list) list"

fun graph_put :: "graph \<Rightarrow> nat \<Rightarrow> nat list \<Rightarrow> graph" where
  "graph_put [] k v = [(k, v)]"
| "graph_put ((k', v') # g) k v =
     (if k < k' then (k, v) # (k', v') # g
      else if k = k' then (k, v) # g
      else (k', v') # graph_put g k v)"

definition buildDependencyGraph :: "step list \<Rightarrow> graph" where
  "buildDependencyGraph plan =
     foldl (\<lambda>graph s. graph_put graph (step_id s)
              (case step_dependencies s of None \<Rightarrow> [] | Some ds \<Rightarrow> ds)) [] plan"

text \<open>The values that the traversals pass around: \<^verbatim>\<open>Object.keys\<close> yields the keys as
  strings, the dependency arrays hold numbers. Both address the same property of an
  object, but a \<^verbatim>\<open>Set\<close> keeps the string \<^verbatim>\<open>"1"\<close> and the number \<^verbatim>\<open>1\<close> apart.\<close>

datatype node = Key nat | Num nat

fun prop_key :: "node \<Rightarrow> nat" where
  "prop_key (Key k) = k"
| "prop_key (Num n) = n"

text \<open>\<^verbatim>\<open>graph[node] || []\<close>\<close>

definition neighbors :: "graph \<Rightarrow> node \<Rightarrow> nat list" where
  "neighbors g node = (case map_of g (prop_key node) of None \<Rightarrow> [] | Some ds \<Rightarrow> ds)"

subsection \<open>Cycle detection\<close>

text \<open>The three mutable variables that the closure \<^verbatim>\<open>dfs\<close> of
  \<^verbatim>\<open>detectCircularDependencies\<close> shares: the objects \<^verbatim>\<open>visited\<close> and
  \<^verbatim>\<open>recursionStack\<close> (the set of property keys that hold \<^verbatim>\<open>true\<close>) and the array
  \<^verbatim>\<open>cycles\<close>.\<close>

record dfs_state =
  visited_keys :: "nat set"
  recursionStack_keys :: "nat set"
  cycles_found :: "node list list"

text \<open>\<^verbatim>\<open>dfs(node, path)\<close> returns its boolean and the state it leaves; \<open>dfs_for\<close> is
  the loop \<^verbatim>\<open>for (const neighbor of neighbors)\<close> on the neighbours still to visit,
  followed by the two statements after the \<^verbatim>\<open>if\<close>. A \<^verbatim>\<open>return true\<close> leaves the loop
  without resetting \<^verbatim>\<open>recursionStack[node]\<close>.\<close>

function dfs :: "graph \<Rightarrow> node \<Rightarrow> node list \<Rightarrow> dfs_state \<Rightarrow> bool \<times> dfs_state"
  and dfs_for :: "graph \<Rightarrow> node \<Rightarrow> node list \<Rightarrow> nat list \<Rightarrow> dfs_state \<Rightarrow> bool \<times> dfs_state"
where
  "dfs g node path st =
     (if prop_key node \<notin> visited_keys st
      then dfs_for g node path (neighbors g node)
             (st\<lparr>visited_keys := insert (prop_key node) (visited_keys st),
                 recursionStack_keys := insert (prop_key node) (recursionStack_keys st)\<rparr>)
      else (False, st\<lparr>recursionStack_keys := recursionStack_keys st - {prop_key node}\<rparr>))"
| "dfs_for g node path [] st =
     (False, st\<lparr>recursionStack_keys := recursionStack_keys st - {prop_key node}\<rparr>)"
| "dfs_for g node path (neighbor # rest) st =
     (if neighbor \<notin> visited_keys st then
        (case dfs g (Num neighbor) (path @ [node]) st of
           (found, st') \<Rightarrow> if found then (True, st') else dfs_for g node path rest st')
      else if neighbor \<in> recursionStack_keys st then
        (True, st\<lparr>cycles_found := cycles_found st @ [path @ [node, Num neighbor]]\<rparr>)
      else dfs_for g node path rest st)"
  by pat_completeness auto

text \<open>Termination: every call of \<open>dfs\<close> from the loop is on a key that is not yet
  visited_keys, and marks it; the keys that can occur are those of the dependency arrays.\<close>

definition graph_nodes :: "graph \<Rightarrow> nat set" where
  "graph_nodes g = \<Union> (set (map (set \<circ> snd) g))"

lemma dfs_visited_mono:
  "dfs_dfs_for_dom (Inl (g, node, path, st)) \<Longrightarrow> visited_keys st \<subseteq> visited_keys (snd (dfs g node path st))"
  "dfs_dfs_for_dom (Inr (g, node, path, nbs, st)) \<Longrightarrow> visited_keys st \<subseteq> visited_keys (snd (dfs_for g node path nbs st))"
proof (induct g node path st and g node path nbs st rule: dfs_dfs_for.pinduct)
  case (1 g node path st)
  then show ?case by (auto simp: dfs.psimps)
next
  case (2 g node path st)
  then show ?case by (simp add: dfs_for.psimps)
next
  case (3 g node path neighbor rest st)
  show ?case
  proof (cases "neighbor \<in> visited_keys st")
    case True
    with 3 show ?thesis by (auto simp: dfs_for.psimps)
  next
    case False
    obtain found st' where r: "dfs g (Num neighbor) (path @ [node]) st = (found, st')"
      by (cases "dfs g (Num neighbor) (path @ [node]) st")
    from 3(2) [OF False] r have a: "visited_keys st \<subseteq> visited_keys st'" by simp
    show ?thesis
    proof (cases found)
      case True
      with 3(1) False r a show ?thesis by (simp add: dfs_for.psimps)
    next
      case nf: False
      from 3(3) [OF False r [symmetric] nf] have "visited_keys st' \<subseteq> visited_keys (snd (dfs_for g node path rest st'))" .
      with 3(1) False r a nf show ?thesis by (auto simp: dfs_for.psimps)
    qed
  qed
qed

lemma finite_graph_nodes: "finite (graph_nodes g)"
  by (simp add: graph_nodes_def)

lemma neighbors_graph_nodes: "set (neighbors g node) \<subseteq> graph_nodes g"
proof (cases "map_of g (prop_key node)")
  case None
  then show ?thesis by (simp add: neighbors_def)
next
  case (Some ds)
  then have "(prop_key node, ds) \<in> set g" by (rule map_of_SomeD)
  then have "set ds \<subseteq> graph_nodes g" by (force simp: graph_nodes_def)
  with Some show ?thesis by (simp add: neighbors_def)
qed

termination dfs
proof (relation "inv_image (less_than <*lex*> less_than)
    (\<lambda>x. case x of
       Inl (g, node, path, st) \<Rightarrow> (2 * card (insert (prop_key node) (graph_nodes g) - visited_keys st), 0)
     | Inr (g, node, path, nbs, st) \<Rightarrow> (2 * card ((graph_nodes g \<union> set nbs) - visited_keys st) + 1, length nbs))", goal_cases)
  case 1
  then show ?case by (intro wf_inv_image wf_lex_prod wf_less_than)
next
  case (2 g node path st)
  have eq: "graph_nodes g \<union> set (neighbors g node) = graph_nodes g"
    using neighbors_graph_nodes [of g node] by auto
  have "insert (prop_key node) (graph_nodes g) - visited_keys st
        = insert (prop_key node) (graph_nodes g - insert (prop_key node) (visited_keys st))"
    using 2 by auto
  then have "card (insert (prop_key node) (graph_nodes g) - visited_keys st)
        = Suc (card (graph_nodes g - insert (prop_key node) (visited_keys st)))"
    by (simp add: finite_graph_nodes)
  then show ?case by (simp add: eq)
next
  case (3 g node path neighbor rest st)
  have "card (insert neighbor (graph_nodes g) - visited_keys st)
        \<le> card (insert neighbor (graph_nodes g \<union> set rest) - visited_keys st)"
    by (rule card_mono) (auto simp: finite_graph_nodes)
  then show ?case by simp
next
  case (4 g node path neighbor rest st x y)
  then have "visited_keys st \<subseteq> visited_keys y"
    using dfs_visited_mono(1) [of g "Num neighbor" "path @ [node]" st]
    by (metis snd_conv)
  then have "card (graph_nodes g \<union> set rest - visited_keys y)
        \<le> card (insert neighbor (graph_nodes g \<union> set rest) - visited_keys st)"
    by (intro card_mono) (auto simp: finite_graph_nodes)
  then show ?case by (auto simp: order_le_less)
next
  case (5 g node path neighbor rest st)
  have "card (graph_nodes g \<union> set rest - visited_keys st)
        \<le> card (insert neighbor (graph_nodes g \<union> set rest) - visited_keys st)"
    by (intro card_mono) (auto simp: finite_graph_nodes)
  then show ?case by (auto simp: order_le_less)
qed

text \<open>\<^verbatim>\<open>Object.keys(graph).forEach(node => { if (!visited[node]) dfs(node, []) })\<close>\<close>

definition detectCircularDependencies :: "graph \<Rightarrow> node list list" where
  "detectCircularDependencies g =
     cycles_found (foldl (\<lambda>st k. if k \<notin> visited_keys st then snd (dfs g (Key k) [] st) else st)
               \<lparr>visited_keys = {}, recursionStack_keys = {}, cycles_found = []\<rparr> (map fst g))"

subsection \<open>Dependency depth\<close>

text \<open>The closure \<^verbatim>\<open>calculateDepth(node, depth, visited)\<close> of
  \<^verbatim>\<open>calculateMaxDependencyDepth\<close>. Its result is never read; what it leaves is the
  shared variable \<^verbatim>\<open>maxDepth\<close>, so the function takes that variable and returns its
  new value. \<^verbatim>\<open>visited\<close> is a \<^verbatim>\<open>Set\<close> of values, and every neighbour gets a copy of
  it (\<^verbatim>\<open>new Set(visited)\<close>) made after \<^verbatim>\<open>node\<close> was added.\<close>

function calculateDepth :: "graph \<Rightarrow> node \<Rightarrow> nat \<Rightarrow> node set \<Rightarrow> nat \<Rightarrow> nat" where
  "calculateDepth g node depth visited maxDepth =
     (if node \<in> visited then maxDepth
      else foldl (\<lambda>maxDepth' neighbor.
                    calculateDepth g (Num neighbor) (depth + 1) (insert node visited) maxDepth')
             (max maxDepth depth) (neighbors g node))"
  by pat_completeness auto
text \<open>Termination: on a path no value is entered twice, and the values are the key the
  path started from and the numbers of the dependency arrays.\<close>

termination
proof (relation "measure (\<lambda>(g, node, depth, visited, maxDepth).
          card (insert node (Num ` graph_nodes g) - visited))", goal_cases)
  case 1
  show ?case by simp
next
  case (2 g node depth visited maxDepth maxDepth' neighbor)
  have fin: "finite (Num ` graph_nodes g)" by (simp add: finite_graph_nodes)
  have nb: "Num neighbor \<in> Num ` graph_nodes g"
    using 2 neighbors_graph_nodes [of g node] by auto
  have "insert node (Num ` graph_nodes g) - visited
        = insert node (Num ` graph_nodes g - insert node visited)"
    using 2 by auto
  moreover have "insert (Num neighbor) (Num ` graph_nodes g) - insert node visited
        = Num ` graph_nodes g - insert node visited"
    using nb by auto
  ultimately show ?case using fin by simp
qed

declare calculateDepth.simps [simp del]

text \<open>\<^verbatim>\<open>Object.keys(graph).forEach(node => { calculateDepth(node, 1, new Set()) })\<close>\<close>

definition calculateMaxDependencyDepth :: "graph \<Rightarrow> nat" where
  "calculateMaxDependencyDepth g =
     foldl (\<lambda>maxDepth k. calculateDepth g (Key k) 1 {} maxDepth) 0 (map fst g)"

text \<open>\<^verbatim>\<open>identifyComplexDependencies\<close> and \<^verbatim>\<open>countTotalDependencies\<close>\<close>

record complex_dependency =
  cd_step :: nat
  cd_dependencies :: nat
  cd_assessment :: string

definition identifyComplexDependencies :: "graph \<Rightarrow> complex_dependency list" where
  "identifyComplexDependencies g =
     map (\<lambda>(node, deps). \<lparr>cd_step = node, cd_dependencies = length deps,
                             cd_assessment = ''Complex''\<rparr>)
       (filter (\<lambda>(node, deps). length deps > 2) g)"

definition countTotalDependencies :: "step list \<Rightarrow> nat" where
  "countTotalDependencies plan =
     foldl (\<lambda>total s. total + (case step_dependencies s of None \<Rightarrow> 0 | Some ds \<Rightarrow> length ds))
       0 plan"

subsection \<open>Risks\<close>

text \<open>The fields of the agent that its methods read. No method assigns to them.\<close>

record validator_agent =
  riskFactors_high :: "string list"
  riskFactors_medium :: "string list"
  riskFactors_low :: "string list"

text \<open>The constructor.\<close>

definition new_ValidatorAgent :: validator_agent where
  "new_ValidatorAgent =
     \<lparr>riskFactors_high =
        [''tight timeline'', ''complex dependencies'', ''unknown technology'',
         ''limited resources'', ''multiple stakeholders''],
      riskFactors_medium =
        [''moderate complexity'', ''some dependencies'', ''limited expertise'',
         ''budget constraints''],
      riskFactors_low =
        [''well-defined'', ''experienced team'', ''ample resources'', ''clear requirements'']\<rparr>"

datatype risk_level = high | medium

record risk_entry =
  risk_step :: nat
  risk_title :: "string option"
  risk_factor :: string
  risk_level :: risk_level
  risk_impact :: string

text \<open>\<^verbatim>\<open>`${step.title} ${step.description}`.toLowerCase()\<close>\<close>

definition stepText :: "step \<Rightarrow> string" where
  "stepText s = toLowerCase (template (step_title s) @ '' '' @ template (step_description s))"

definition analyzeStepRisks :: "validator_agent \<Rightarrow> step \<Rightarrow> nat \<Rightarrow> risk_entry list" where
  "analyzeStepRisks this s index =
     map (\<lambda>factor. \<lparr>risk_step = index + 1, risk_title = step_title s, risk_factor = factor,
                      risk_level = high, risk_impact = ''Significant delay or failure risk''\<rparr>)
       (filter (\<lambda>factor. includes_str (stepText s) factor) (riskFactors_high this))
     @
     map (\<lambda>factor. \<lparr>risk_step = index + 1, risk_title = step_title s, risk_factor = factor,
                      risk_level = medium, risk_impact = ''Moderate delay or quality risk''\<rparr>)
       (filter (\<lambda>factor. includes_str (stepText s) factor) (riskFactors_medium this))"

text \<open>The \<^verbatim>\<open>forEach\<close> of \<^verbatim>\<open>identifyRisks\<close>; \<open>index\<close> is the index of the head of the list.\<close>

fun identifyRisks_loop ::
  "validator_agent \<Rightarrow> step list \<Rightarrow> nat \<Rightarrow> risk_entry list \<Rightarrow> risk_entry list" where
  "identifyRisks_loop this [] index risks = risks"
| "identifyRisks_loop this (s # plan) index risks =
     (let stepRisks = analyzeStepRisks this s index in
      identifyRisks_loop this plan (index + 1)
        (if length stepRisks > 0 then risks @ stepRisks else risks))"

definition identifyRisks :: "validator_agent \<Rightarrow> step list \<Rightarrow> risk_entry list" where
  "identifyRisks this plan = identifyRisks_loop this plan 0 []"

text \<open>The \<^verbatim>\<open>forEach\<close> of \<^verbatim>\<open>assessRiskMitigation\<close> with its two counters.\<close>

fun mitigation_loop :: "step list \<Rightarrow> nat \<Rightarrow> nat \<Rightarrow> nat \<times> nat" where
  "mitigation_loop [] mitigationScore totalFactors = (mitigationScore, totalFactors)"
| "mitigation_loop (s # plan) mitigationScore totalFactors =
     mitigation_loop plan
       (mitigationScore
        + (if (case step_description s of
                 None \<Rightarrow> False
               | Some d \<Rightarrow> includes_str (toLowerCase d) ''mitigat'') then 20 else 0)
        + (if (case step_resources s of
                 None \<Rightarrow> False
               | Some rs \<Rightarrow> list_ex (\<lambda>r. includes_str (toLowerCase r) ''backup'') rs) then 15 else 0)
        + (if (case step_dependencies s of
                 None \<Rightarrow> False
               | Some ds \<Rightarrow> length ds < 3) then 10 else 0))
       (totalFactors + 3)"

text \<open>\<^verbatim>\<open>Math.min(100, Math.round((mitigationScore / (totalFactors * 10)) * 100))\<close>; for the
  empty plan the quotient is \<^verbatim>\<open>0 / 0\<close>, and the result \<^verbatim>\<open>NaN\<close>.\<close>

definition assessRiskMitigation :: "step list \<Rightarrow> int option" where
  "assessRiskMitigation plan =
     (case mitigation_loop plan 0 0 of
        (mitigationScore, totalFactors) \<Rightarrow>
          if totalFactors * 10 = 0 then None
          else Some (min 100
                 (js_round
                    (fl (fl (of_nat mitigationScore / of_nat (totalFactors * 10)) * 100)))))"

subsection \<open>Findings\<close>

datatype finding_type = passed | warning | failed

record feasibility_factors =
  hasDuration :: bool
  hasResources :: "bool option"
  descriptionLength :: nat
  hasDependencies :: "bool option"

text \<open>The \<^verbatim>\<open>details\<close> object of a finding, one constructor for each shape that the five
  rules build; the arguments are the properties in the order of the source.\<close>

datatype details =
    StepFeasibilityDetails nat string feasibility_factors
  | OverallFeasibilityDetails string "int option"
  | ResourceCountDetails nat string string
  | CriticalResourcesDetails "string list" string
  | TimelineDetails string nat string string
  | DurationBalanceDetails "unbalanced_step list" string
  | CircularDependenciesDetails "node list list" string
  | ComplexDependenciesDetails "complex_dependency list" string
  | DependencyOverviewDetails nat nat string
  | RisksDetails "risk_entry list" string
  | RiskMitigationDetails "int option" string string

record finding =
  f_id :: string
  f_type :: finding_type
  f_title :: string
  f_message :: string
  f_details :: "details option"

subsection \<open>Feasibility\<close>

text \<open>\<^verbatim>\<open>assessStepFeasibility\<close>: each of the three factors must be the value \<^verbatim>\<open>true\<close>; a
  missing property or an empty string makes the factor falsy.\<close>

definition assessStepFeasibility :: "step \<Rightarrow> bool" where
  "assessStepFeasibility s =
     ((case step_duration s of None \<Rightarrow> False | Some d \<Rightarrow> includes_str d ''hours'')
      \<and> (case step_resources s of None \<Rightarrow> False | Some rs \<Rightarrow> length rs > 0)
      \<and> (case step_description s of None \<Rightarrow> False | Some d \<Rightarrow> length d > 20))"

definition getFeasibilityFactors :: "step \<Rightarrow> feasibility_factors" where
  "getFeasibilityFactors s =
     \<lparr>hasDuration = (case step_duration s of None \<Rightarrow> False | Some d \<Rightarrow> d \<noteq> []),
      hasResources = map_option (\<lambda>rs. length rs > 0) (step_resources s),
      descriptionLength = (case step_description s of None \<Rightarrow> 0 | Some d \<Rightarrow> length d),
      hasDependencies = map_option (\<lambda>ds. length ds > 0) (step_dependencies s)\<rparr>"

text \<open>The \<^verbatim>\<open>forEach\<close> of \<^verbatim>\<open>validateFeasibility\<close>.\<close>

fun feasibility_loop :: "step list \<Rightarrow> nat \<Rightarrow> finding list \<Rightarrow> finding list" where
  "feasibility_loop [] index validations = validations"
| "feasibility_loop (s # plan) index validations =
     (let isFeasible = assessStepFeasibility s in
      feasibility_loop plan (index + 1)
        (validations @
         [\<lparr>f_id = ''feasibility-'' @ show_nat (index + 1),
           f_type = (if isFeasible then passed else warning),
           f_title = ''Step '' @ show_nat (index + 1) @ '' Feasibility'',
           f_message =
             (if isFeasible
              then [CHR 0x22] @ template (step_title s) @ [CHR 0x22] @ '' appears feasible''
              else [CHR 0x22] @ template (step_title s) @ [CHR 0x22]
                   @ '' may require additional resources or expertise''),
           f_details = Some (StepFeasibilityDetails (step_id s)
                        (if isFeasible then ''Feasible'' else ''Needs Review'')
                        (getFeasibilityFactors s))\<rparr>]))"

text \<open>\<^verbatim>\<open>Math.round((passed / plan.length) * 100)\<close>, which is \<^verbatim>\<open>NaN\<close> for the empty plan.\<close>

definition percentage :: "nat \<Rightarrow> nat \<Rightarrow> int option" where
  "percentage k n =
     (if n = 0 then None else Some (js_round (fl (fl (of_nat k / of_nat n) * 100))))"

definition validateFeasibility :: "step list \<Rightarrow> finding list" where
  "validateFeasibility plan =
     (let validations = feasibility_loop plan 0 [];
          overallFeasible = list_all (\<lambda>v. f_type v = passed) validations
      in validations @
         [\<lparr>f_id = ''overall-feasibility'',
           f_type = (if overallFeasible then passed else warning),
           f_title = ''Overall Feasibility'',
           f_message =
             (if overallFeasible then ''The overall plan appears feasible''
              else ''Some steps may require adjustment for full feasibility''),
           f_details = Some (OverallFeasibilityDetails
                        (if overallFeasible then ''Good'' else ''Needs Attention'')
                        (percentage (length (filter (\<lambda>v. f_type v = passed) validations))
                           (length plan)))\<rparr>])"

subsection \<open>Resources\<close>

text \<open>\<^verbatim>\<open>Set.add\<close> on a \<^verbatim>\<open>Set\<close> kept in insertion order.\<close>

definition set_add :: "string list \<Rightarrow> string \<Rightarrow> string list" where
  "set_add xs x = (if x \<in> set xs then xs else xs @ [x])"

definition identifyCriticalResources :: "step list \<Rightarrow> string list" where
  "identifyCriticalResources plan =
     foldl (\<lambda>criticalResources s.
              case step_resources s of
                None \<Rightarrow> criticalResources
              | Some rs \<Rightarrow>
                  foldl (\<lambda>acc resource.
                           if list_ex (\<lambda>keyword. includes_str (toLowerCase resource) keyword)
                                [''specialized'', ''expert'', ''licensed'', ''premium'',
                                 ''custom'', ''rare'']
                           then set_add acc resource else acc)
                    criticalResources rs)
       [] plan"

definition validateResources :: "step list \<Rightarrow> finding list" where
  "validateResources plan =
     (let totalResources =
            foldl (\<lambda>acc s. case step_resources s of None \<Rightarrow> acc | Some rs \<Rightarrow> foldl set_add acc rs)
              [] plan;
          resourceCount = length totalResources;
          criticalResources = identifyCriticalResources plan
      in [\<lparr>f_id = ''resource-count'',
            f_type = (if resourceCount \<le> 10 then passed else warning),
            f_title = ''Resource Requirements'',
            f_message =
              (if resourceCount \<le> 10
               then ''Plan requires '' @ show_nat resourceCount @ '' distinct resources (manageable)''
               else ''Plan requires '' @ show_nat resourceCount
                    @ '' distinct resources (consider consolidation)''),
            f_details = Some (ResourceCountDetails resourceCount
                         (if resourceCount \<le> 10 then ''Reasonable'' else ''High'')
                         (if resourceCount > 10 then ''Consider resource consolidation''
                          else ''Good''))\<rparr>]
         @ (if length criticalResources > 0 then
              [\<lparr>f_id = ''critical-resources'',
                f_type = warning,
                f_title = ''Critical Resources'',
                f_message = ''Identified '' @ show_nat (length criticalResources)
                            @ '' potentially critical resources'',
                f_details = Some (CriticalResourcesDetails criticalResources
                             ''Ensure availability of critical resources before starting'')\<rparr>]
            else []))"

subsection \<open>Timeline, dependencies and risks as findings\<close>

text \<open>\<^verbatim>\<open>validateTimeline\<close>: either call may throw, and then no finding is returned.\<close>

definition validateTimeline :: "step list \<Rightarrow> js_exception + finding list" where
  "validateTimeline plan =
     (case calculatePlanDuration plan of
        Inl e \<Rightarrow> Inl e
      | Inr totalDuration \<Rightarrow>
          (let timelineStatus = assessTimeline totalDuration (length plan) in
           case identifyUnbalancedDurations plan of
             Inl e \<Rightarrow> Inl e
           | Inr unbalancedSteps \<Rightarrow>
               Inr ([\<lparr>f_id = ''timeline-assessment'',
                      f_type = (if ts_status timelineStatus then passed else warning),
                      f_title = ''Timeline Assessment'',
                      f_message = ts_message timelineStatus,
                      f_details = Some (TimelineDetails totalDuration (length plan)
                                   (ts_assessment timelineStatus)
                                   (ts_recommendation timelineStatus))\<rparr>]
                    @ (if length unbalancedSteps > 0 then
                         [\<lparr>f_id = ''duration-balance'',
                           f_type = warning,
                           f_title = ''Duration Balance'',
                           f_message = ''Found '' @ show_nat (length unbalancedSteps)
                                       @ '' steps with potentially unbalanced durations'',
                           f_details = Some (DurationBalanceDetails unbalancedSteps
                                        ''Consider rebalancing durations for better workflow'')\<rparr>]
                       else []))))"

definition validateDependencies :: "step list \<Rightarrow> finding list" where
  "validateDependencies plan =
     (let dependencyGraph = buildDependencyGraph plan;
          circularDeps = detectCircularDependencies dependencyGraph;
          complexDeps = identifyComplexDependencies dependencyGraph;
          depStatus = (length complexDeps = 0 \<and> length circularDeps = 0)
      in (if length circularDeps > 0 then
            [\<lparr>f_id = ''circular-dependencies'',
              f_type = failed,
              f_title = ''Circular Dependencies'',
              f_message = ''Found '' @ show_nat (length circularDeps)
                          @ '' circular dependency chains'',
              f_details = Some (CircularDependenciesDetails circularDeps
                           ''Resolve circular dependencies before proceeding'')\<rparr>]
          else [])
         @ (if length complexDeps > 0 then
              [\<lparr>f_id = ''complex-dependencies'',
                f_type = warning,
                f_title = ''Complex Dependencies'',
                f_message = ''Found '' @ show_nat (length complexDeps)
                            @ '' steps with complex dependencies'',
                f_details = Some (ComplexDependenciesDetails complexDeps
                             ''Consider simplifying dependency structure'')\<rparr>]
            else [])
         @ [\<lparr>f_id = ''dependency-overview'',
              f_type = (if depStatus then passed else warning),
              f_title = ''Dependency Structure'',
              f_message = (if depStatus then ''Dependency structure is clean and manageable''
                           else ''Some dependency issues need attention''),
              f_details = Some (DependencyOverviewDetails (countTotalDependencies plan)
                           (calculateMaxDependencyDepth dependencyGraph)
                           (if depStatus then ''Good'' else ''Needs Review''))\<rparr>])"

text \<open>\<^verbatim>\<open>mitigationScore >= 70\<close> is false when the score is \<^verbatim>\<open>NaN\<close>.\<close>

definition validateRisks :: "validator_agent \<Rightarrow> step list \<Rightarrow> finding list" where
  "validateRisks this plan =
     (let risks = identifyRisks this plan;
          highRisks = filter (\<lambda>r. risk_level r = high) risks;
          mediumRisks = filter (\<lambda>r. risk_level r = medium) risks;
          mitigationScore = assessRiskMitigation plan;
          good = (case mitigationScore of None \<Rightarrow> False | Some m \<Rightarrow> m \<ge> 70)
      in (if length highRisks > 0 then
            [\<lparr>f_id = ''high-risks'',
              f_type = warning,
              f_title = ''High Risks Identified'',
              f_message = ''Found '' @ show_nat (length highRisks) @ '' high-risk areas'',
              f_details = Some (RisksDetails highRisks
                           ''Address high risks before proceeding with implementation'')\<rparr>]
          else [])
         @ (if length mediumRisks > 0 then
              [\<lparr>f_id = ''medium-risks'',
                f_type = warning,
                f_title = ''Medium Risks'',
                f_message = ''Found '' @ show_nat (length mediumRisks)
                            @ '' medium-risk areas to monitor'',
                f_details = Some (RisksDetails mediumRisks
                             ''Monitor these risks throughout implementation'')\<rparr>]
            else [])
         @ [\<lparr>f_id = ''risk-mitigation'',
              f_type = (if good then passed else warning),
              f_title = ''Risk Mitigation'',
              f_message = (if good then ''Good risk mitigation planning''
                           else ''Consider enhancing risk mitigation strategies''),
              f_details = Some (RiskMitigationDetails mitigationScore
                           (if good then ''Good'' else ''Needs Improvement'')
                           ''Add specific mitigation strategies for identified risks'')\<rparr>])"

subsection \<open>Score, summary and recommendations\<close>

text \<open>\<^verbatim>\<open>weights[validation.type] || 0\<close>\<close>

fun weight :: "finding_type \<Rightarrow> rat" where
  "weight passed = 1"
| "weight warning = 1 / 2"
| "weight failed = 0"

text \<open>\<^verbatim>\<open>calculateValidationScore\<close>; for no finding at all the quotient is \<^verbatim>\<open>0 / 0\<close> and the
  score \<^verbatim>\<open>NaN\<close>.\<close>

definition calculateValidationScore :: "finding list \<Rightarrow> int option" where
  "calculateValidationScore validations =
     (let totalScore = foldl (\<lambda>score validation. score + weight (f_type validation)) 0 validations;
          maxScore = length validations
      in if maxScore = 0 then None
         else Some (js_round (fl (fl (totalScore / of_nat maxScore) * 100))))"

record summary =
  sm_score :: "int option"
  sm_status :: string
  sm_passed :: nat
  sm_warnings :: nat
  sm_failed :: nat
  sm_overall :: string

text \<open>Every comparison with \<^verbatim>\<open>NaN\<close> is false.\<close>

definition generateValidationSummary :: "finding list \<Rightarrow> int option \<Rightarrow> summary" where
  "generateValidationSummary validations score =
     \<lparr>sm_score = score,
      sm_status =
        (case score of
           None \<Rightarrow> ''Good''
         | Some sc \<Rightarrow>
             if sc < 60 then ''Needs Major Improvements''
             else if sc < 80 then ''Needs Some Improvements''
             else if sc < 90 then ''Satisfactory''
             else ''Good''),
      sm_passed = length (filter (\<lambda>v. f_type v = passed) validations),
      sm_warnings = length (filter (\<lambda>v. f_type v = warning) validations),
      sm_failed = length (filter (\<lambda>v. f_type v = failed) validations),
      sm_overall =
        (if (case score of None \<Rightarrow> False | Some sc \<Rightarrow> sc \<ge> 80)
         then ''Plan is generally valid'' else ''Plan needs review'')\<rparr>"

record recommendation =
  rec_priority :: string
  rec_action :: string
  rec_reason :: string

definition generateRecommendations :: "finding list \<Rightarrow> recommendation list" where
  "generateRecommendations validations =
     (let warnings = filter (\<lambda>v. f_type v = warning) validations;
          failures = filter (\<lambda>v. f_type v = failed) validations;
          resourceWarnings =
            filter (\<lambda>v. includes_str (f_title v) ''Resource'' \<and> f_type v = warning) validations;
          timelineWarnings =
            filter (\<lambda>v. includes_str (f_title v) ''Timeline'' \<and> f_type v = warning) validations
      in (if length failures > 0 then
            [\<lparr>rec_priority = ''High'',
              rec_action = ''Address failed validations before proceeding'',
              rec_reason = show_nat (length failures) @ '' critical issues need resolution''\<rparr>]
          else [])
         @ (if length warnings > 3 then
              [\<lparr>rec_priority = ''Medium'',
                rec_action = ''Review and address warning validations'',
                rec_reason = ''Multiple ('' @ show_nat (length warnings)
                             @ '') areas need attention''\<rparr>]
            else [])
         @ (if length resourceWarnings > 0 then
              [\<lparr>rec_priority = ''Medium'',
                rec_action = ''Review resource allocation and availability'',
                rec_reason = ''Resource-related warnings identified''\<rparr>]
            else [])
         @ (if length timelineWarnings > 0 then
              [\<lparr>rec_priority = ''Medium'',
                rec_action = ''Review timeline estimates and dependencies'',
                rec_reason = ''Timeline-related warnings identified''\<rparr>]
            else []))"

definition getFallbackValidations :: "finding list" where
  "getFallbackValidations =
     [\<lparr>f_id = ''fallback-1'', f_type = passed, f_title = ''Basic Structure'',
       f_message = ''Plan has basic structure and steps'', f_details = None\<rparr>,
      \<lparr>f_id = ''fallback-2'', f_type = warning, f_title = ''Limited Detail'',
       f_message = ''Plan lacks detailed validation due to system limitations'',
       f_details = None\<rparr>]"

subsection \<open>The entry point\<close>

text \<open>The two shapes of the object that \<^verbatim>\<open>validatePlan\<close> resolves to: with
  \<^verbatim>\<open>success: true\<close> the findings, the score, the summary and the recommendations; with
  \<^verbatim>\<open>success: false\<close> the caught exception (for its message) and the fallback findings.\<close>

datatype validation_result =
    Success "finding list" "int option" summary "recommendation list"
  | Failure js_exception "finding list"

text \<open>The loop over \<^verbatim>\<open>Object.entries(this.validationRules)\<close> inside the \<^verbatim>\<open>try\<close>: the five
  rules in the order of the constructor, each result appended to \<^verbatim>\<open>validations\<close>. Only
  \<^verbatim>\<open>validateTimeline\<close> can throw on the modelled inputs.\<close>

definition run_validationRules :: "validator_agent \<Rightarrow> string \<Rightarrow> step list \<Rightarrow> js_exception + finding list" where
  "run_validationRules this task plan =
     (case validateTimeline plan of
        Inl e \<Rightarrow> Inl e
      | Inr timeline \<Rightarrow>
          Inr (validateFeasibility plan @ validateResources plan @ timeline
               @ validateDependencies plan @ validateRisks this plan))"

text \<open>\<^verbatim>\<open>validatePlan(task, plan)\<close>. The plan is \<open>None\<close> when the caller passes \<^verbatim>\<open>null\<close> or
  \<^verbatim>\<open>undefined\<close>. The first statement, which reads \<^verbatim>\<open>plan.length\<close> for the log line, is
  outside the \<^verbatim>\<open>try\<close> block: its exception rejects the promise (\<open>Inl\<close>). An exception
  inside the block is caught (\<open>Inr (Failure \<dots>)\<close>).\<close>

definition validatePlan ::
  "validator_agent \<Rightarrow> string \<Rightarrow> step list option \<Rightarrow> js_exception + validation_result" where
  "validatePlan this task plan' =
     (case plan' of
        None \<Rightarrow> Inl (TypeError ''length'')
      | Some plan \<Rightarrow>
          (case run_validationRules this task plan of
             Inl error \<Rightarrow> Inr (Failure error getFallbackValidations)
           | Inr validations \<Rightarrow>
               (let score = calculateValidationScore validations;
                    summary = generateValidationSummary validations score
                in Inr (Success validations score summary
                          (generateRecommendations validations)))))"

section \<open>Notions of the specification\<close>

text \<open>The midpoint of a duration as the specification words it: the midpoint of the range
  \<open>a-b\<close>, and 2 hours when the text does not parse.\<close>

definition duration_midpoint :: "string \<Rightarrow> rat" where
  "duration_midpoint d = (case match_range d of None \<Rightarrow> 2 | Some m \<Rightarrow> avg_of_match m)"

text \<open>All dependency entries of a plan, in order.\<close>

definition plan_dependencies :: "step list \<Rightarrow> nat list" where
  "plan_dependencies plan =
     concat (map (\<lambda>s. case step_dependencies s of None \<Rightarrow> [] | Some ds \<Rightarrow> ds) plan)"

text \<open>The unbalanced steps as the specification words them, from the duration texts of the
  steps: the step numbers (from 1) whose midpoint, 2 for a text that does not parse,
  differs by more than 4 from the midpoint of the step just before.\<close>

definition claimed_unbalanced_steps :: "string list \<Rightarrow> nat list" where
  "claimed_unbalanced_steps ds =
     map (\<lambda>i. i + 1)
       (filter (\<lambda>i. \<bar>duration_midpoint (ds ! i) - duration_midpoint (ds ! (i - 1))\<bar> > 4)
          [1..<length ds])"

text \<open>The steps whose duration parses, in plan order: step number (\<open>index\<close> is the index of
  the head of the list), step, duration text and midpoint.\<close>

fun parsable_steps :: "step list \<Rightarrow> nat \<Rightarrow> (nat \<times> step \<times> string \<times> rat) list" where
  "parsable_steps [] index = []"
| "parsable_steps (s # plan) index =
     (case step_duration s of
        None \<Rightarrow> parsable_steps plan (index + 1)
      | Some d \<Rightarrow>
          (case match_range d of
             None \<Rightarrow> parsable_steps plan (index + 1)
           | Some m \<Rightarrow> (index + 1, s, d, avg_of_match m) # parsable_steps plan (index + 1)))"

text \<open>The entries pushed for the pairs of \<open>before\<close> and \<open>ps\<close> at equal positions whose
  midpoints differ by more than 4.\<close>

definition unbalanced_pairs ::
  "(nat \<times> step \<times> string \<times> rat) list \<Rightarrow> (nat \<times> step \<times> string \<times> rat) list
     \<Rightarrow> unbalanced_step list" where
  "unbalanced_pairs before ps =
     map (\<lambda>((j, p, pd, pm), (i, s, d, m)).
            \<lparr>ub_step = i, ub_title = step_title s, ub_duration = d,
             ub_difference = \<bar>m - pm\<bar>\<rparr>)
       (filter (\<lambda>((j, p, pd, pm), (i, s, d, m)). \<bar>m - pm\<bar> > 4) (zip before ps))"

text \<open>The mitigation points of one step: 20 when the description mentions mitigation, 15
  when a resource name contains \<open>backup\<close>, 10 when the step has a dependency list with
  fewer than 3 entries.\<close>

definition step_mitigation_points :: "step \<Rightarrow> nat" where
  "step_mitigation_points s =
     (if (case step_description s of None \<Rightarrow> False
          | Some d \<Rightarrow> includes_str (toLowerCase d) ''mitigat'') then 20 else 0)
     + (if (case step_resources s of None \<Rightarrow> False
            | Some rs \<Rightarrow> list_ex (\<lambda>r. includes_str (toLowerCase r) ''backup'') rs) then 15 else 0)
     + (if (case step_dependencies s of None \<Rightarrow> False | Some ds \<Rightarrow> length ds < 3) then 10 else 0)"

text \<open>The edges of the dependency graph: from the id of a step to each of its
  dependencies.\<close>

definition dependency_edges :: "graph \<Rightarrow> (nat \<times> nat) set" where
  "dependency_edges g = {(a, b). b \<in> set (neighbors g (Num a))}"

text \<open>Two notions for the analysis of the traversal: every key on the recursion stack
  reaches the key \<open>k\<close> along edges; and a call that started in the state \<open>st\<close> on the key
  \<open>k\<close> found nothing, reported nothing and left no key on the stack that was not there.\<close>

definition stack_reaches :: "graph \<Rightarrow> dfs_state \<Rightarrow> nat \<Rightarrow> bool" where
  "stack_reaches g st k = (\<forall>a \<in> recursionStack_keys st. (a, k) \<in> (dependency_edges g)\<^sup>*)"

definition quiet :: "dfs_state \<Rightarrow> nat \<Rightarrow> bool \<times> dfs_state \<Rightarrow> bool" where
  "quiet st k r = (\<not> fst r \<and> cycles_found (snd r) = cycles_found st
                   \<and> recursionStack_keys (snd r) \<subseteq> recursionStack_keys st - {k})"



section \<open>Properties\<close>

subsection \<open>Rounding to doubles\<close>

text \<open>The exponent that \<open>binade\<close> computes is the one of the definition of a double, and
  rounding moves a positive number by at most the fraction \<open>2\<^sup>-\<^sup>5\<^sup>3\<close> of it.\<close>

lemma bit_length_bounds:
  "0 < n \<Longrightarrow> 2 ^ (bit_length n - 1) \<le> n \<and> n < 2 ^ bit_length n"
proof (induction n rule: bit_length.induct)
  case (1 n)
  show ?case
  proof (cases "n div 2 = 0")
    case True
    with "1.prems" have "n = 1" by auto
    then show ?thesis by (simp add: bit_length.simps)
  next
    case False
    then have pos: "0 < n div 2" by simp
    from "1.IH" [OF _ pos] "1.prems"
    have lo: "2 ^ (bit_length (n div 2) - 1) \<le> n div 2"
      and hi: "n div 2 < 2 ^ bit_length (n div 2)" by simp_all
    have bl: "bit_length n = Suc (bit_length (n div 2))"
      using "1.prems" by (subst bit_length.simps) simp
    have b1: "0 < bit_length (n div 2)"
      using pos by (subst bit_length.simps) simp
    have "(2::nat) ^ bit_length (n div 2) = 2 * 2 ^ (bit_length (n div 2) - 1)"
      using b1 by (cases "bit_length (n div 2)") simp_all
    with lo have "2 ^ bit_length (n div 2) \<le> 2 * (n div 2)" by simp
    then have l: "2 ^ (bit_length n - 1) \<le> n" by (simp add: bl)
    from hi have "n div 2 + 1 \<le> 2 ^ bit_length (n div 2)" by simp
    then have "2 * (n div 2) + 2 \<le> 2 * 2 ^ bit_length (n div 2)" by simp
    then have "n < 2 * 2 ^ bit_length (n div 2)" by linarith
    then have "n < 2 ^ bit_length n" by (simp add: bl)
    with l show ?thesis by simp
  qed
qed

lemma pow2_pos: "0 < pow2 e"
  by (simp add: pow2_def)

lemma pow2_nat: "pow2 (int n) = 2 ^ n"
  by (simp add: pow2_def)

lemma pow2_neg_nat: "pow2 (- int n) = 1 / 2 ^ n"
  by (cases "n = 0") (simp_all add: pow2_def)

lemma pow2_Suc: "pow2 (e + 1) = 2 * pow2 e"
proof (cases "0 \<le> e")
  case True
  then have "nat (e + 1) = Suc (nat e)" by simp
  with True show ?thesis by (simp add: pow2_def)
next
  case False
  then have "nat (- e) = Suc (nat (- (e + 1)))" by simp
  with False show ?thesis by (auto simp: pow2_def)
qed

lemma pow2_add_nat: "pow2 (e + int k) = 2 ^ k * pow2 e"
proof (induction k)
  case 0
  then show ?case by simp
next
  case (Suc k)
  have "e + int (Suc k) = (e + int k) + 1" by simp
  then have "pow2 (e + int (Suc k)) = pow2 ((e + int k) + 1)" by (simp only:)
  also have "\<dots> = 2 * pow2 (e + int k)" by (rule pow2_Suc)
  finally show ?case by (simp add: Suc)
qed

lemma binade_le:
  assumes "0 < x"
  shows "pow2 (binade x) \<le> x"
proof (cases "1 \<le> x")
  case True
  let ?n = "nat \<lfloor>x\<rfloor>"
  from True have fl1: "1 \<le> \<lfloor>x\<rfloor>" by (simp only: le_floor_iff of_int_1)
  then have pos: "0 < ?n" by simp
  from bit_length_bounds [OF pos] have "2 ^ (bit_length ?n - 1) \<le> ?n" by (rule conjunct1)
  then have "(of_nat (2 ^ (bit_length ?n - 1)) :: rat) \<le> of_nat ?n"
    by (simp only: of_nat_le_iff)
  then have "(2::rat) ^ (bit_length ?n - 1) \<le> of_nat ?n" by simp
  also have "(of_nat ?n :: rat) = of_int \<lfloor>x\<rfloor>" using fl1 by simp
  also have "\<dots> \<le> x" by (rule of_int_floor_le)
  finally have le: "(2::rat) ^ (bit_length ?n - 1) \<le> x" .
  have b1: "0 < bit_length ?n" using pos by (subst bit_length.simps) simp
  then have "int (bit_length ?n) - 1 = int (bit_length ?n - 1)" by simp
  then have "pow2 (int (bit_length ?n) - 1) = 2 ^ (bit_length ?n - 1)"
    by (simp only: pow2_nat)
  then have "pow2 (binade x) = 2 ^ (bit_length ?n - 1)"
    using True by (simp only: binade_def if_True)
  with le show ?thesis by (simp only:)
next
  case False
  let ?c = "\<lceil>1 / x\<rceil>"
  let ?j = "bit_length (nat (?c - 1))"
  from False have x1: "x < 1" by simp
  with assms have "1 < 1 / x" by (simp only: less_divide_eq_1_pos) 
  then have "1 < ?c" by (simp only: less_ceiling_iff of_int_1)
  then have c2: "2 \<le> ?c" by linarith
  then have pos: "0 < nat (?c - 1)" by linarith
  from bit_length_bounds [OF pos] have "nat (?c - 1) < 2 ^ ?j" by (rule conjunct2)
  then have "int (nat (?c - 1)) < int (2 ^ ?j)" by (simp only: of_nat_less_iff)
  moreover have "0 \<le> ?c - 1" using c2 by linarith
  then have "int (nat (?c - 1)) = ?c - 1" by (rule nat_0_le)
  moreover have "int (2 ^ ?j) = 2 ^ ?j" by simp
  ultimately have "?c - 1 < 2 ^ ?j" by (simp only:)
  then have "?c \<le> 2 ^ ?j" by linarith
  then have "(of_int ?c :: rat) \<le> of_int (2 ^ ?j)" by (simp only: of_int_le_iff)
  then have "(of_int ?c :: rat) \<le> 2 ^ ?j" by simp
  moreover have "1 / x \<le> of_int ?c" by (rule le_of_int_ceiling)
  ultimately have "1 / x \<le> 2 ^ ?j" by (rule order_trans [rotated])
  then have "1 \<le> 2 ^ ?j * x" using assms by (simp only: pos_divide_le_eq)
  then have "1 / 2 ^ ?j \<le> x"
    by (simp add: pos_divide_le_eq mult.commute)
  moreover have "pow2 (- int ?j) = 1 / 2 ^ ?j" by (rule pow2_neg_nat)
  then have "pow2 (binade x) = 1 / 2 ^ ?j"
    using False by (simp only: binade_def if_False)
  ultimately show ?thesis by (simp only:)
qed

lemma round_half_even_error: "\<bar>of_int (round_half_even m) - m\<bar> \<le> 1 / 2"
proof -
  have "of_int \<lfloor>m\<rfloor> \<le> m" "m < of_int \<lfloor>m\<rfloor> + 1" by linarith+
  then show ?thesis by (auto simp: round_half_even_def Let_def abs_le_iff)
qed

lemma fl_error:
  assumes "0 < x"
  shows "\<bar>fl x - x\<bar> \<le> x / 2 ^ 53"
proof -
  let ?u = "pow2 (binade x - 52)"
  have u: "0 < ?u" by (rule pow2_pos)
  have "pow2 (binade x) = 2 ^ 52 * ?u"
    using pow2_add_nat [of "binade x - 52" 52] by simp
  with binade_le [OF assms] have ux: "2 ^ 52 * ?u \<le> x" by simp
  have "fl x - x = (of_int (round_half_even (x / ?u)) - x / ?u) * ?u"
    using assms u by (simp add: fl_def field_simps)
  then have "\<bar>fl x - x\<bar> = \<bar>of_int (round_half_even (x / ?u)) - x / ?u\<bar> * ?u"
    using u by (simp add: abs_mult)
  also have "\<dots> \<le> 1 / 2 * ?u"
    using round_half_even_error [of "x / ?u"] u by (intro mult_right_mono) simp_all
  also have "\<dots> \<le> x / 2 ^ 53" using ux by simp
  finally show ?thesis .
qed

lemma fl_times_100_error:
  assumes "0 \<le> x"
  shows "\<bar>fl (fl x * 100) - x * 100\<bar> \<le> x * 100 / 2 ^ 51"
proof (cases "x = 0")
  case True
  then show ?thesis by (simp add: fl_def)
next
  case False
  with assms have x: "0 < x" by simp
  define d where "d = x / 2 ^ 53"
  have d0: "0 < d" using x by (simp add: d_def)
  have dx: "d \<le> x" using x by (simp add: d_def field_simps)
  have d51: "x * 100 / 2 ^ 51 = 400 * d" by (simp add: d_def)
  from fl_error [OF x] have e1: "\<bar>fl x - x\<bar> \<le> d" by (simp only: d_def)
  then have lo: "x - d \<le> fl x" and hi: "fl x \<le> x + d" by linarith+
  have "d < x" using x by (simp add: d_def field_simps)
  with lo have r1: "0 < fl x * 100" by simp
  from fl_error [OF r1] have "\<bar>fl (fl x * 100) - fl x * 100\<bar> \<le> fl x * 100 / 2 ^ 53" .
  also have "\<dots> \<le> (2 * x) * 100 / 2 ^ 53"
    using hi dx by (intro divide_right_mono mult_right_mono) simp_all
  also have "\<dots> = 200 * d" by (simp add: d_def)
  finally have e2: "\<bar>fl (fl x * 100) - fl x * 100\<bar> \<le> 200 * d" .
  have "\<bar>fl (fl x * 100) - x * 100\<bar> \<le> 300 * d" using e1 e2 by linarith
  also have "\<dots> \<le> 400 * d" using d0 by simp
  finally show ?thesis by (simp only: d51)
qed

lemma binade_gt:
  assumes "0 < x"
  shows "x < pow2 (binade x + 1)"
proof (cases "1 \<le> x")
  case True
  let ?n = "nat \<lfloor>x\<rfloor>"
  from True have fl1: "1 \<le> \<lfloor>x\<rfloor>" by (simp only: le_floor_iff of_int_1)
  then have pos: "0 < ?n" by simp
  from bit_length_bounds [OF pos] have "?n < 2 ^ bit_length ?n" by (rule conjunct2)
  then have "int ?n < int (2 ^ bit_length ?n)" by (simp only: of_nat_less_iff)
  moreover have "int ?n = \<lfloor>x\<rfloor>" using fl1 by simp
  moreover have "int (2 ^ bit_length ?n) = 2 ^ bit_length ?n" by simp
  ultimately have "\<lfloor>x\<rfloor> < 2 ^ bit_length ?n" by (simp only:)
  then have "x < of_int (2 ^ bit_length ?n)" by (simp only: floor_less_iff)
  then have "x < 2 ^ bit_length ?n" by simp
  moreover have "pow2 (int (bit_length ?n)) = 2 ^ bit_length ?n" by (rule pow2_nat)
  moreover have "binade x + 1 = int (bit_length ?n)" using True by (simp add: binade_def)
  ultimately show ?thesis by (simp only:)
next
  case False
  let ?c = "\<lceil>1 / x\<rceil>"
  let ?j = "bit_length (nat (?c - 1))"
  from False have x1: "x < 1" by simp
  with assms have "1 < 1 / x" by (simp only: less_divide_eq_1_pos)
  then have "1 < ?c" by (simp only: less_ceiling_iff of_int_1)
  then have c2: "2 \<le> ?c" by linarith
  then have pos: "0 < nat (?c - 1)" by linarith
  have j1: "0 < ?j" using pos by (subst bit_length.simps) simp
  from bit_length_bounds [OF pos] have "2 ^ (?j - 1) \<le> nat (?c - 1)" by (rule conjunct1)
  then have "int (2 ^ (?j - 1)) \<le> int (nat (?c - 1))" by (simp only: of_nat_le_iff)
  moreover have "0 \<le> ?c - 1" using c2 by linarith
  then have "int (nat (?c - 1)) = ?c - 1" by (rule nat_0_le)
  moreover have "int (2 ^ (?j - 1)) = 2 ^ (?j - 1)" by simp
  ultimately have "2 ^ (?j - 1) \<le> ?c - 1" by (simp only:)
  then have "(of_int (2 ^ (?j - 1)) :: rat) \<le> of_int (?c - 1)" by (simp only: of_int_le_iff)
  then have "(2::rat) ^ (?j - 1) \<le> of_int ?c - 1" by simp
  moreover have "of_int ?c - 1 < 1 / x" using ceiling_correct [of "1 / x"] by linarith
  ultimately have "(2::rat) ^ (?j - 1) < 1 / x" by linarith
  then have "2 ^ (?j - 1) * x < 1" using assms by (simp only: pos_less_divide_eq)
  then have "x < 1 / 2 ^ (?j - 1)" by (simp add: pos_less_divide_eq mult.commute)
  moreover have "pow2 (- int (?j - 1)) = 1 / 2 ^ (?j - 1)" by (rule pow2_neg_nat)
  moreover have "binade x + 1 = - int (?j - 1)" using False j1 by (simp add: binade_def)
  ultimately show ?thesis by (simp only:)
qed

lemma js_round_percent:
  assumes "0 \<le> q" and "q \<le> 3 / 2"
  shows "\<bar>of_int (js_round (fl (fl q * 100))) - q * 100\<bar> \<le> 1 / 2 + 1 / 10 ^ 13"
    and "0 \<le> js_round (fl (fl q * 100))"
    and "q \<le> 1 \<Longrightarrow> js_round (fl (fl q * 100)) \<le> 100"
    and "q = 1 \<Longrightarrow> js_round (fl (fl q * 100)) = 100"
    and "1 / 100 \<le> q \<Longrightarrow> 1 \<le> js_round (fl (fl q * 100))"
proof -
  define r where "r = fl (fl q * 100)"
  define t :: rat where "t = 1 / 10 ^ 13"
  have t: "0 < t" "t < 1 / 4" by (simp_all add: t_def)
  have "q * 100 / 2 ^ 51 \<le> (3 / 2) * 100 / 2 ^ 51"
    using assms(2) by (intro divide_right_mono mult_right_mono) simp_all
  also have "\<dots> \<le> t" by (simp add: t_def)
  finally have "q * 100 / 2 ^ 51 \<le> t" .
  with fl_times_100_error [OF assms(1)] have e: "\<bar>r - q * 100\<bar> \<le> t"
    unfolding r_def by linarith
  have f: "of_int (js_round r) \<le> r + 1 / 2" "r + 1 / 2 < of_int (js_round r) + 1"
    unfolding js_round_def by linarith+
  show "\<bar>of_int (js_round (fl (fl q * 100))) - q * 100\<bar> \<le> 1 / 2 + 1 / 10 ^ 13"
    using e f unfolding r_def [symmetric] t_def [symmetric] by linarith
  have "0 < r + 1 / 2" using e assms(1) t by linarith
  then have "(of_int 0 :: rat) < of_int (js_round r) + 1" using f by simp
  then have "(of_int 0 :: rat) < of_int (js_round r + 1)" by simp
  then have "0 < js_round r + 1" by (simp only: of_int_less_iff)
  then show n0: "0 \<le> js_round (fl (fl q * 100))" unfolding r_def by linarith
  show le: "js_round (fl (fl q * 100)) \<le> 100" if "q \<le> 1"
  proof -
    have "r + 1 / 2 < 101" using e that t by linarith
    then have "(of_int (js_round r) :: rat) < of_int 101" using f by simp
    then have "js_round r < 101" by (simp only: of_int_less_iff)
    then show ?thesis unfolding r_def by linarith
  qed
  show "js_round (fl (fl q * 100)) = 100" if "q = 1"
  proof -
    have "100 < r + 1 / 2" using e that t by linarith
    then have "(of_int 100 :: rat) < of_int (js_round r + 1)" using f by simp
    then have "100 < js_round r + 1" by (simp only: of_int_less_iff)
    moreover have "js_round r \<le> 100" using le that unfolding r_def by simp
    ultimately show ?thesis unfolding r_def by linarith
  qed
  show "1 \<le> js_round (fl (fl q * 100))" if "1 / 100 \<le> q"
  proof -
    have "1 < r + 1 / 2" using e that t by linarith
    then have "(of_int 1 :: rat) < of_int (js_round r + 1)" using f by simp
    then have "1 < js_round r + 1" by (simp only: of_int_less_iff)
    then show ?thesis unfolding r_def by linarith
  qed
qed


lemma percent_23_40: "js_round (fl (fl (23 / 40) * 100)) = 57"
  by code_simp

lemma ceiling_fl_81_80: "\<lceil>fl (81 / 80)\<rceil> = 2"
  by code_simp

lemma ceiling_fl_17_16: "\<lceil>fl (17 / 16)\<rceil> = 2"
  by code_simp

lemma ceiling_fl_5: "\<lceil>fl 5\<rceil> = 5"
  by code_simp

subsection \<open>Plan duration\<close>

lemma totalHours_loop_throws:
  "totalHours_loop (before @ s\<lparr>step_duration := None\<rparr> # after) totalHours
   = Inl (TypeError ''match'')"
  by (induction before arbitrary: totalHours) (simp_all split: option.split)

lemma match_range_examples:
  "match_range ''1-2 hours'' = Some (''1'', ''2'')"
  "match_range ''3-4 hours'' = Some (''3'', ''4'')"
  "match_range ''soon'' = None"
  "match_range ''about 3-5 hours each'' = Some (''3'', ''5'')"
  "match_range ''7-9 hours'' = Some (''7'', ''9'')"
  "match_range ''8-9 hours'' = Some (''8'', ''9'')"
  "match_range ''40-40 hours'' = Some (''40'', ''40'')"
  "match_range ''40-41 hours'' = Some (''40'', ''41'')"
  by (simp_all add: match_range_at_def is_digit_def Let_def)

text \<open>C6: a plan with a step that has no duration has no total: \<open>calculatePlanDuration\<close>
  throws a \<open>TypeError\<close> where the claim takes the default of 2 hours, and \<open>validatePlan\<close>
  answers with the fallback findings. On duration texts the
  function does what the claim says: the durations \<open>1-2 hours\<close> and \<open>3-4 hours\<close> give
  \<open>5 hours\<close>; a text without a range counts 2 hours; a range is found anywhere in the
  text; a total of 8 is printed in hours, of 8.5 and of 40 in days, of 40.5 in weeks.\<close>

theorem plan_duration_of_a_missing_duration_and_of_examples:
  "calculatePlanDuration (before @ s\<lparr>step_duration := None\<rparr> # after)
     = Inl (TypeError ''match'')
   \<and> validatePlan this task (Some (before @ s\<lparr>step_duration := None\<rparr> # after))
       = Inr (Failure (TypeError ''match'') getFallbackValidations)
   \<and> calculatePlanDuration
         [s1\<lparr>step_duration := Some ''1-2 hours''\<rparr>, s2\<lparr>step_duration := Some ''3-4 hours''\<rparr>]
       = Inr ''5 hours''
   \<and> calculatePlanDuration [s\<lparr>step_duration := Some ''soon''\<rparr>] = Inr ''2 hours''
   \<and> calculatePlanDuration [s\<lparr>step_duration := Some ''about 3-5 hours each''\<rparr>]
       = Inr ''4 hours''
   \<and> calculatePlanDuration [s\<lparr>step_duration := Some ''7-9 hours''\<rparr>] = Inr ''8 hours''
   \<and> calculatePlanDuration [s\<lparr>step_duration := Some ''8-9 hours''\<rparr>] = Inr ''2 days''
   \<and> calculatePlanDuration [s\<lparr>step_duration := Some ''40-40 hours''\<rparr>] = Inr ''5 days''
   \<and> calculatePlanDuration [s\<lparr>step_duration := Some ''40-41 hours''\<rparr>] = Inr ''2 weeks''"
  by (simp del: match_range.simps
      add: validatePlan_def run_validationRules_def validateTimeline_def
        calculatePlanDuration_def totalHours_loop_throws match_range_examples
        avg_of_match_def parseInt_def digit_val_def show_int_def show_nat.simps digit_char_def
        ceiling_fl_81_80 ceiling_fl_17_16 ceiling_fl_5)

subsection \<open>Risk identification\<close>

lemma includes_str_iff: "includes_str s sub \<longleftrightarrow> (\<exists>p q. s = p @ sub @ q)"
proof (induction s)
  case Nil
  then show ?case by auto
next
  case (Cons c s)
  show ?case
  proof
    assume "includes_str (c # s) sub"
    then consider "prefix sub (c # s)" | "includes_str s sub" by auto
    then show "\<exists>p q. c # s = p @ sub @ q"
    proof cases
      case 1
      then obtain q where "c # s = sub @ q" by (auto simp: prefix_def)
      then have "c # s = [] @ sub @ q" by simp
      then show ?thesis by blast
    next
      case 2
      with Cons.IH obtain p q where "s = p @ sub @ q" by blast
      then have "c # s = (c # p) @ sub @ q" by simp
      then show ?thesis by blast
    qed
  next
    assume "\<exists>p q. c # s = p @ sub @ q"
    then obtain p q where pq: "c # s = p @ sub @ q" by blast
    show "includes_str (c # s) sub"
    proof (cases p)
      case Nil
      with pq have "prefix sub (c # s)" by (simp add: prefix_def)
      then show ?thesis by simp
    next
      case (Cons a p')
      with pq have "s = p' @ sub @ q" by simp
      with Cons.IH have "includes_str s sub" by blast
      then show ?thesis by simp
    qed
  qed
qed

lemma includes_str_toLowerCase:
  assumes "includes_str s sub" and "toLowerCase sub = sub"
  shows "includes_str (toLowerCase (pre @ s)) sub"
proof -
  from assms(1) obtain p q where "s = p @ sub @ q" by (auto simp: includes_str_iff)
  then have "toLowerCase (pre @ s) = (toLowerCase (pre @ p)) @ sub @ toLowerCase q"
    using assms(2) by (simp add: toLowerCase_def)
  then show ?thesis unfolding includes_str_iff by blast
qed

lemma identifyRisks_loop_concat:
  "identifyRisks_loop this plan index risks
   = risks @ concat (map (\<lambda>(i, s). analyzeStepRisks this s i) (enumerate index plan))"
  by (induction plan arbitrary: index risks) (simp_all add: Let_def)

lemma analyzeStepRisks_step: "r \<in> set (analyzeStepRisks this s i) \<Longrightarrow> risk_step r = Suc i"
  by (auto simp: analyzeStepRisks_def)

lemma filter_step_risks:
  "filter (\<lambda>r. risk_step r = Suc i)
     (concat (map (\<lambda>(j, s). analyzeStepRisks this s j) (enumerate k plan)))
   = (if k \<le> i \<and> i < k + length plan then analyzeStepRisks this (plan ! (i - k)) i else [])"
proof (induction plan arbitrary: k)
  case Nil
  then show ?case by auto
next
  case (Cons s plan)
  have here: "filter (\<lambda>r. risk_step r = Suc i) (analyzeStepRisks this s k)
              = (if k = i then analyzeStepRisks this s k else [])"
    by (auto simp: filter_empty_conv filter_id_conv dest: analyzeStepRisks_step)
  show ?case
    by (auto simp: here Cons.IH [of "Suc k"] Suc_diff_le nth_Cons')
qed

text \<open>C7: for every step of a plan with a title and a description, the risk entries of
  that step are one entry for each high-risk keyword that occurs in the lower-cased text
  "title, space, description", followed by one entry for each medium-risk keyword that
  occurs in it, each with its keyword and level and none removed as a duplicate; a step
  whose description contains \<open>tight timeline\<close> has a high-level entry with that keyword.
  A keyword may lie in the title, or across title and description, in any letter case; a
  missing title or description reads \<open>undefined\<close>.\<close>

theorem every_keyword_in_title_and_description_gives_one_risk_entry:
  "(\<forall>i t d. i < length plan \<and> step_title (plan ! i) = Some t
              \<and> step_description (plan ! i) = Some d \<longrightarrow>
      filter (\<lambda>r. risk_step r = i + 1) (identifyRisks new_ValidatorAgent plan)
      = map (\<lambda>keyword. \<lparr>risk_step = i + 1, risk_title = Some t,
                         risk_factor = keyword, risk_level = high,
                         risk_impact = ''Significant delay or failure risk''\<rparr>)
          (filter (\<lambda>keyword. \<exists>p q. toLowerCase (t @ '' '' @ d) = p @ keyword @ q)
             [''tight timeline'', ''complex dependencies'', ''unknown technology'',
              ''limited resources'', ''multiple stakeholders''])
        @ map (\<lambda>keyword. \<lparr>risk_step = i + 1, risk_title = Some t,
                         risk_factor = keyword, risk_level = medium,
                         risk_impact = ''Moderate delay or quality risk''\<rparr>)
          (filter (\<lambda>keyword. \<exists>p q. toLowerCase (t @ '' '' @ d) = p @ keyword @ q)
             [''moderate complexity'', ''some dependencies'', ''limited expertise'',
              ''budget constraints'']))
   \<and> (\<forall>i d. i < length plan \<and> step_description (plan ! i) = Some d
             \<and> (\<exists>p q. d = p @ ''tight timeline'' @ q) \<longrightarrow>
          \<lparr>risk_step = i + 1, risk_title = step_title (plan ! i),
            risk_factor = ''tight timeline'', risk_level = high,
            risk_impact = ''Significant delay or failure risk''\<rparr>
          \<in> set (identifyRisks new_ValidatorAgent plan))
   \<and> identifyRisks new_ValidatorAgent
         [s1\<lparr>step_title := Some ''Review: Tight'',
             step_description := Some ''Timeline, LIMITED Resources and Budget constraints''\<rparr>]
       = [\<lparr>risk_step = 1, risk_title = Some ''Review: Tight'', risk_factor = ''tight timeline'',
            risk_level = high, risk_impact = ''Significant delay or failure risk''\<rparr>,
          \<lparr>risk_step = 1, risk_title = Some ''Review: Tight'',
            risk_factor = ''limited resources'',
            risk_level = high, risk_impact = ''Significant delay or failure risk''\<rparr>,
          \<lparr>risk_step = 1, risk_title = Some ''Review: Tight'',
            risk_factor = ''budget constraints'',
            risk_level = medium, risk_impact = ''Moderate delay or quality risk''\<rparr>]
   \<and> identifyRisks new_ValidatorAgent
         [s1\<lparr>step_title := Some ''Plan'', step_description := Some ''Write it down''\<rparr>,
          s2\<lparr>step_title := Some ''Unknown Technology spike'',
             step_description := Some ''Try it''\<rparr>]
       = [\<lparr>risk_step = 2, risk_title = Some ''Unknown Technology spike'',
            risk_factor = ''unknown technology'',
            risk_level = high, risk_impact = ''Significant delay or failure risk''\<rparr>]
   \<and> identifyRisks new_ValidatorAgent
         [s1\<lparr>step_title := None, step_description := None\<rparr>] = []"
proof -
  have steps: "filter (\<lambda>r. risk_step r = i + 1) (identifyRisks new_ValidatorAgent plan)
      = analyzeStepRisks new_ValidatorAgent (plan ! i) i" if "i < length plan" for i
    using that by (simp add: identifyRisks_def identifyRisks_loop_concat filter_step_risks)
  have occurs: "includes_str x keyword = (\<exists>p q. x = p @ keyword @ q)" for x keyword
    by (rule includes_str_iff)
  have occurs_fun: "includes_str x = (\<lambda>keyword. \<exists>p q. x = p @ keyword @ q)" for x
    by (rule ext) (rule includes_str_iff)
  have a: "filter (\<lambda>r. risk_step r = i + 1) (identifyRisks new_ValidatorAgent plan)
      = map (\<lambda>keyword. \<lparr>risk_step = i + 1, risk_title = Some t,
                         risk_factor = keyword, risk_level = high,
                         risk_impact = ''Significant delay or failure risk''\<rparr>)
          (filter (\<lambda>keyword. \<exists>p q. toLowerCase (t @ '' '' @ d) = p @ keyword @ q)
             [''tight timeline'', ''complex dependencies'', ''unknown technology'',
              ''limited resources'', ''multiple stakeholders''])
        @ map (\<lambda>keyword. \<lparr>risk_step = i + 1, risk_title = Some t,
                         risk_factor = keyword, risk_level = medium,
                         risk_impact = ''Moderate delay or quality risk''\<rparr>)
          (filter (\<lambda>keyword. \<exists>p q. toLowerCase (t @ '' '' @ d) = p @ keyword @ q)
             [''moderate complexity'', ''some dependencies'', ''limited expertise'',
              ''budget constraints''])"
    if "i < length plan" "step_title (plan ! i) = Some t" "step_description (plan ! i) = Some d"
    for i t d
  proof -
    have "stepText (plan ! i) = toLowerCase (t @ '' '' @ d)"
      using that by (simp add: stepText_def template_def)
    then have "analyzeStepRisks new_ValidatorAgent (plan ! i) i
      = map (\<lambda>keyword. \<lparr>risk_step = i + 1, risk_title = Some t,
                         risk_factor = keyword, risk_level = high,
                         risk_impact = ''Significant delay or failure risk''\<rparr>)
          (filter (\<lambda>keyword. \<exists>p q. toLowerCase (t @ '' '' @ d) = p @ keyword @ q)
             [''tight timeline'', ''complex dependencies'', ''unknown technology'',
              ''limited resources'', ''multiple stakeholders''])
        @ map (\<lambda>keyword. \<lparr>risk_step = i + 1, risk_title = Some t,
                         risk_factor = keyword, risk_level = medium,
                         risk_impact = ''Moderate delay or quality risk''\<rparr>)
          (filter (\<lambda>keyword. \<exists>p q. toLowerCase (t @ '' '' @ d) = p @ keyword @ q)
             [''moderate complexity'', ''some dependencies'', ''limited expertise'',
              ''budget constraints''])"
      unfolding analyzeStepRisks_def new_ValidatorAgent_def
      by (simp only: validator_agent.simps occurs_fun that(2))
    then show ?thesis by (simp only: steps [OF that(1)])
  qed
  have tight: "\<lparr>risk_step = i + 1, risk_title = step_title (plan ! i),
            risk_factor = ''tight timeline'', risk_level = high,
            risk_impact = ''Significant delay or failure risk''\<rparr>
          \<in> set (identifyRisks new_ValidatorAgent plan)"
    if i: "i < length plan" and d: "step_description (plan ! i) = Some d"
      and inc: "\<exists>p q. d = p @ ''tight timeline'' @ q" for i d
  proof -
    have low: "toLowerCase ''tight timeline'' = ''tight timeline''"
      by (simp add: toLowerCase_def lower_char_def)
    from inc have inc': "includes_str d ''tight timeline''" by (simp only: occurs)
    have "includes_str (stepText (plan ! i)) ''tight timeline''"
      using includes_str_toLowerCase [OF inc' low, of "template (step_title (plan ! i)) @ '' ''"]
      by (simp add: stepText_def d template_def)
    then have "\<lparr>risk_step = i + 1, risk_title = step_title (plan ! i),
            risk_factor = ''tight timeline'', risk_level = high,
            risk_impact = ''Significant delay or failure risk''\<rparr>
          \<in> set (analyzeStepRisks new_ValidatorAgent (plan ! i) i)"
      by (simp add: analyzeStepRisks_def new_ValidatorAgent_def)
    then have "\<lparr>risk_step = i + 1, risk_title = step_title (plan ! i),
            risk_factor = ''tight timeline'', risk_level = high,
            risk_impact = ''Significant delay or failure risk''\<rparr>
          \<in> set (filter (\<lambda>r. risk_step r = i + 1) (identifyRisks new_ValidatorAgent plan))"
      using steps [OF i] by simp
    then show ?thesis by simp
  qed
  have e1: "identifyRisks new_ValidatorAgent
         [s1\<lparr>step_title := Some ''Review: Tight'',
             step_description := Some ''Timeline, LIMITED Resources and Budget constraints''\<rparr>]
       = [\<lparr>risk_step = 1, risk_title = Some ''Review: Tight'', risk_factor = ''tight timeline'',
            risk_level = high, risk_impact = ''Significant delay or failure risk''\<rparr>,
          \<lparr>risk_step = 1, risk_title = Some ''Review: Tight'',
            risk_factor = ''limited resources'',
            risk_level = high, risk_impact = ''Significant delay or failure risk''\<rparr>,
          \<lparr>risk_step = 1, risk_title = Some ''Review: Tight'',
            risk_factor = ''budget constraints'',
            risk_level = medium, risk_impact = ''Moderate delay or quality risk''\<rparr>]"
    by (simp add: identifyRisks_def analyzeStepRisks_def new_ValidatorAgent_def stepText_def
        template_def toLowerCase_def lower_char_def Let_def)
  have e2: "identifyRisks new_ValidatorAgent
         [s1\<lparr>step_title := Some ''Plan'', step_description := Some ''Write it down''\<rparr>,
          s2\<lparr>step_title := Some ''Unknown Technology spike'',
             step_description := Some ''Try it''\<rparr>]
       = [\<lparr>risk_step = 2, risk_title = Some ''Unknown Technology spike'',
            risk_factor = ''unknown technology'',
            risk_level = high, risk_impact = ''Significant delay or failure risk''\<rparr>]"
    by (simp add: identifyRisks_def analyzeStepRisks_def new_ValidatorAgent_def stepText_def
        template_def toLowerCase_def lower_char_def Let_def)
  have e3: "identifyRisks new_ValidatorAgent
         [s1\<lparr>step_title := None, step_description := None\<rparr>] = []"
    by (simp add: identifyRisks_def analyzeStepRisks_def new_ValidatorAgent_def stepText_def
        template_def toLowerCase_def lower_char_def Let_def)
  from a tight e1 e2 e3 show ?thesis by (intro conjI allI impI) (elim conjE, assumption+)+
qed

theorem risk_entries_witness:
  "filter (\<lambda>r. risk_step r = 0 + 1)
     (identifyRisks new_ValidatorAgent
        [\<lparr>step_id = 3, step_title = Some ''Unknown Technology spike'',
          step_description = Some ''We face a tight timeline'',
          step_duration = Some ''1-2 hours'', step_resources = Some [],
          step_dependencies = Some []\<rparr>])
   = [\<lparr>risk_step = 0 + 1, risk_title = Some ''Unknown Technology spike'',
        risk_factor = ''tight timeline'',
        risk_level = high, risk_impact = ''Significant delay or failure risk''\<rparr>,
      \<lparr>risk_step = 0 + 1, risk_title = Some ''Unknown Technology spike'',
        risk_factor = ''unknown technology'',
        risk_level = high, risk_impact = ''Significant delay or failure risk''\<rparr>]"
proof -
  let ?t = "''Unknown Technology spike''" and ?d = "''We face a tight timeline''"
  let ?s = "\<lparr>step_id = 3, step_title = Some ?t, step_description = Some ?d,
          step_duration = Some ''1-2 hours'', step_resources = Some [],
          step_dependencies = Some []\<rparr>"
  have low: "toLowerCase (?t @ '' '' @ ?d) = ''unknown technology spike we face a tight timeline''"
    by (simp add: toLowerCase_def lower_char_def)
  have pre: "0 < length [?s] \<and> step_title ([?s] ! 0) = Some ?t
             \<and> step_description ([?s] ! 0) = Some ?d" by simp
  note t = every_keyword_in_title_and_description_gives_one_risk_entry
    [where plan = "[?s]", THEN conjunct1, rule_format, of 0 ?t ?d, OF pre]
  show ?thesis
    unfolding t low by (simp add: includes_str_iff [symmetric])
qed

subsection \<open>Cycle detection on the example plans\<close>

lemma build_two_steps:
  "a < b \<Longrightarrow> buildDependencyGraph
     [s1\<lparr>step_id := a, step_dependencies := Some da\<rparr>, s2\<lparr>step_id := b, step_dependencies := Some db\<rparr>]
   = [(a, da), (b, db)]"
  by (simp add: buildDependencyGraph_def)

text \<open>C3: for the plan with the steps (id 1, dependencies [2]) and (id 2, dependencies [1])
  cycle detection reports exactly one cycle, which holds both ids; for the plan with the
  steps (id 1, no dependencies) and (id 2, dependencies [1]) it reports none.\<close>

theorem cycle_detection_on_the_two_example_plans:
  "detectCircularDependencies
     (buildDependencyGraph [s1\<lparr>step_id := 1, step_dependencies := Some [2]\<rparr>,
                            s2\<lparr>step_id := 2, step_dependencies := Some [1]\<rparr>])
   = [[Key 1, Num 2, Num 1]]
   \<and> detectCircularDependencies
     (buildDependencyGraph [s1\<lparr>step_id := 1, step_dependencies := Some []\<rparr>,
                            s2\<lparr>step_id := 2, step_dependencies := Some [1]\<rparr>])
   = []"
  by (simp add: build_two_steps detectCircularDependencies_def neighbors_def)

subsection \<open>Dependency depth\<close>

lemma foldl_le_max:
  "(\<And>a x. x \<in> set xs \<Longrightarrow> f a x \<le> max a (B::nat)) \<Longrightarrow> foldl f a xs \<le> max a B"
proof (induction xs arbitrary: a)
  case Nil
  then show ?case by simp
next
  case (Cons x xs)
  have "foldl f (f a x) xs \<le> max (f a x) B"
    using Cons.prems by (intro Cons.IH) simp
  moreover have "f a x \<le> max a B" using Cons.prems by simp
  ultimately show ?case by simp
qed

lemma calculateDepth_visited:
  "node \<in> visited \<Longrightarrow> calculateDepth g node depth visited maxDepth = maxDepth"
  by (subst calculateDepth.simps) simp

lemma calculateDepth_unvisited:
  "node \<notin> visited \<Longrightarrow>
   calculateDepth g node depth visited maxDepth
   = foldl (\<lambda>maxDepth' neighbor.
              calculateDepth g (Num neighbor) (depth + 1) (insert node visited) maxDepth')
       (max maxDepth depth) (neighbors g node)"
  by (subst calculateDepth.simps) simp

lemma calculateDepth_le:
  "calculateDepth g node depth visited maxDepth
   \<le> max maxDepth (depth + card (Num ` graph_nodes g - insert node visited))"
proof (induction g node depth visited maxDepth rule: calculateDepth.induct)
  case (1 g node depth visited maxDepth)
  let ?U = "Num ` graph_nodes g"
  let ?B = "depth + card (?U - insert node visited)"
  have fin: "finite ?U" by (simp add: finite_graph_nodes)
  show ?case
  proof (cases "node \<in> visited")
    case True
    then show ?thesis by (simp add: calculateDepth_visited)
  next
    case False
    have step: "calculateDepth g (Num nb) (depth + 1) (insert node visited) a \<le> max a ?B"
      if nb: "nb \<in> set (neighbors g node)" for a nb
    proof (cases "Num nb \<in> insert node visited")
      case True
      then show ?thesis by (simp add: calculateDepth_visited)
    next
      case nin: False
      have "Num nb \<in> ?U" using nb neighbors_graph_nodes [of g node] by auto
      with nin have "Num nb \<in> ?U - insert node visited" by simp
      then have "card (?U - insert node visited)
                 = Suc (card (?U - insert node visited - {Num nb}))"
        using fin by (intro card.remove) auto
      also have "?U - insert node visited - {Num nb} = ?U - insert (Num nb) (insert node visited)"
        by blast
      finally have c: "card (?U - insert node visited)
                 = Suc (card (?U - insert (Num nb) (insert node visited)))" .
      show ?thesis
        using "1.IH" [OF False nb, of a] by (simp only: c)
    qed
    have "foldl (\<lambda>maxDepth' neighbor.
                    calculateDepth g (Num neighbor) (depth + 1) (insert node visited) maxDepth')
             (max maxDepth depth) (neighbors g node) \<le> max (max maxDepth depth) ?B"
      by (rule foldl_le_max) (rule step)
    with False show ?thesis by (simp add: calculateDepth_unvisited)
  qed
qed

lemma calculateMaxDependencyDepth_le_nodes:
  "calculateMaxDependencyDepth g \<le> Suc (card (graph_nodes g))"
proof -
  have "card (Num ` graph_nodes g - {Key k}) = card (graph_nodes g)" for k
  proof -
    have "Num ` graph_nodes g - {Key k} = Num ` graph_nodes g" by auto
    then show ?thesis by (simp add: card_image inj_on_def)
  qed
  then have "calculateDepth g (Key k) 1 {} a \<le> max a (Suc (card (graph_nodes g)))" for a k
    using calculateDepth_le [of g "Key k" 1 "{}" a] by simp
  then have "foldl (\<lambda>maxDepth k. calculateDepth g (Key k) 1 {} maxDepth) 0 (map fst g)
             \<le> max 0 (Suc (card (graph_nodes g)))"
    by (intro foldl_le_max)
  then show ?thesis by (simp add: calculateMaxDependencyDepth_def)
qed

lemma graph_nodes_put: "graph_nodes (graph_put g k v) \<subseteq> graph_nodes g \<union> set v"
  by (induction g k v rule: graph_put.induct) (auto simp: graph_nodes_def)

lemma graph_nodes_build_aux:
  "graph_nodes (foldl (\<lambda>graph s. graph_put graph (step_id s)
              (case step_dependencies s of None \<Rightarrow> [] | Some ds \<Rightarrow> ds)) g plan)
   \<subseteq> graph_nodes g \<union> set (plan_dependencies plan)"
proof (induction plan arbitrary: g)
  case Nil
  then show ?case by (simp add: plan_dependencies_def)
next
  case (Cons s plan)
  show ?case
    using Cons.IH [of "graph_put g (step_id s)
              (case step_dependencies s of None \<Rightarrow> [] | Some ds \<Rightarrow> ds)"]
      graph_nodes_put [of g "step_id s" "case step_dependencies s of None \<Rightarrow> [] | Some ds \<Rightarrow> ds"]
    by (auto simp: plan_dependencies_def)
qed

lemma graph_nodes_build: "graph_nodes (buildDependencyGraph plan) \<subseteq> set (plan_dependencies plan)"
  using graph_nodes_build_aux [of "[]" plan]
  by (simp add: buildDependencyGraph_def graph_nodes_def)

lemma countTotalDependencies_aux:
  "foldl (\<lambda>total s. total + (case step_dependencies s of None \<Rightarrow> 0 | Some ds \<Rightarrow> length ds)) n plan
   = n + length (plan_dependencies plan)"
  by (induction plan arbitrary: n) (auto simp: plan_dependencies_def split: option.splits)

lemma countTotalDependencies_length:
  "countTotalDependencies plan = length (plan_dependencies plan)"
  by (simp add: countTotalDependencies_def countTotalDependencies_aux)

text \<open>C8: the maximum dependency depth is computed for every plan (the traversal is a total
  function: on each path the set of entered values grows) and is at most one more than
  the number of dependency entries of the plan, whatever the edges are; on the cyclic plan
  of two steps it is 3, and on a plan with an edge to the missing id 7 and a step that
  depends on itself it is 4.\<close>

theorem max_dependency_depth_is_bounded:
  "calculateMaxDependencyDepth (buildDependencyGraph plan) \<le> Suc (countTotalDependencies plan)
   \<and> calculateMaxDependencyDepth
       (buildDependencyGraph [s1\<lparr>step_id := 1, step_dependencies := Some [2]\<rparr>,
                              s2\<lparr>step_id := 2, step_dependencies := Some [1]\<rparr>]) = 3
   \<and> calculateMaxDependencyDepth
       (buildDependencyGraph [s1\<lparr>step_id := 1, step_dependencies := Some [7]\<rparr>,
                              s2\<lparr>step_id := 2, step_dependencies := Some [1, 2]\<rparr>]) = 4"
proof -
  have "card (graph_nodes (buildDependencyGraph plan)) \<le> card (set (plan_dependencies plan))"
    by (intro card_mono graph_nodes_build) simp
  also have "\<dots> \<le> length (plan_dependencies plan)" by (rule card_length)
  finally have "calculateMaxDependencyDepth (buildDependencyGraph plan)
                \<le> Suc (countTotalDependencies plan)"
    using calculateMaxDependencyDepth_le_nodes [of "buildDependencyGraph plan"]
    by (simp add: countTotalDependencies_length)
  moreover have "calculateMaxDependencyDepth [(1, [2]), (2, [1])] = 3"
    by (simp add: calculateMaxDependencyDepth_def neighbors_def calculateDepth.simps)
  moreover have "calculateMaxDependencyDepth [(1, [7]), (2, [1, 2])] = 4"
    by (simp add: calculateMaxDependencyDepth_def neighbors_def calculateDepth.simps)
  ultimately show ?thesis
    by (simp add: build_two_steps)
qed

subsection \<open>Unbalanced durations\<close>

lemma unbalanced_loop_previous:
  assumes "list_all (\<lambda>s. step_duration s \<noteq> None) plan"
    and "list_all (\<lambda>(i, s, d, m). m \<noteq> 0) (parsable_steps plan index)"
    and "pm \<noteq> 0"
  shows "unbalanced_loop plan index (Some pm) unbalanced
         = Inr (unbalanced @ unbalanced_pairs ((j, p, pd, pm) # parsable_steps plan index)
                               (parsable_steps plan index))"
  using assms
proof (induction plan arbitrary: index pm unbalanced j p pd)
  case Nil
  then show ?case by (simp add: unbalanced_pairs_def)
next
  case (Cons s plan)
  from Cons.prems(1) obtain d where d: "step_duration s = Some d" by auto
  from Cons.prems(1) have rest: "list_all (\<lambda>s. step_duration s \<noteq> None) plan" by simp
  show ?case
  proof (cases "match_range d")
    case None
    with Cons.prems d have "list_all (\<lambda>(i, s, d, m). m \<noteq> 0) (parsable_steps plan (index + 1))"
      by simp
    from Cons.IH [OF rest this Cons.prems(3)] None d show ?thesis by simp
  next
    case (Some m)
    with Cons.prems d have nz: "avg_of_match m \<noteq> 0"
      and r: "list_all (\<lambda>(i, s, d, m). m \<noteq> 0) (parsable_steps plan (index + 1))"
      by simp_all
    from Cons.IH [OF rest r nz, of _ "index + 1" s d] Some d Cons.prems(3) show ?thesis
      by (simp add: unbalanced_pairs_def Let_def)
  qed
qed

lemma unbalanced_loop_first:
  assumes "list_all (\<lambda>s. step_duration s \<noteq> None) plan"
    and "list_all (\<lambda>(i, s, d, m). m \<noteq> 0) (parsable_steps plan index)"
  shows "unbalanced_loop plan index None unbalanced
         = Inr (unbalanced @ unbalanced_pairs (parsable_steps plan index)
                               (tl (parsable_steps plan index)))"
  using assms
proof (induction plan arbitrary: index)
  case Nil
  then show ?case by (simp add: unbalanced_pairs_def)
next
  case (Cons s plan)
  from Cons.prems(1) obtain d where d: "step_duration s = Some d" by auto
  from Cons.prems(1) have rest: "list_all (\<lambda>s. step_duration s \<noteq> None) plan" by simp
  show ?case
  proof (cases "match_range d")
    case None
    with Cons.prems d have "list_all (\<lambda>(i, s, d, m). m \<noteq> 0) (parsable_steps plan (index + 1))"
      by simp
    from Cons.IH [OF rest this] None d show ?thesis by simp
  next
    case (Some m)
    with Cons.prems d have nz: "avg_of_match m \<noteq> 0"
      and r: "list_all (\<lambda>(i, s, d, m). m \<noteq> 0) (parsable_steps plan (index + 1))"
      by simp_all
    from unbalanced_loop_previous [OF rest r nz, of unbalanced "index + 1" s d] Some d
    show ?thesis by (simp add: Let_def)
  qed
qed

text \<open>C5, as amended: in a plan whose steps all carry a duration text and in which no
  parsed midpoint is 0, the detector skips every step whose duration does not parse and
  flags exactly the remaining steps whose midpoint differs by more than 4 from the
  midpoint of the nearest earlier step that parses.\<close>

theorem unbalanced_steps_compare_parsable_neighbours:
  "list_all (\<lambda>s. step_duration s \<noteq> None) plan \<and>
   list_all (\<lambda>(i, s, d, m). m \<noteq> 0) (parsable_steps plan 0) \<longrightarrow>
   identifyUnbalancedDurations plan
   = Inr (map (\<lambda>((j, p, pd, pm), (i, s, d, m)).
                 \<lparr>ub_step = i, ub_title = step_title s, ub_duration = d,
                  ub_difference = \<bar>m - pm\<bar>\<rparr>)
            (filter (\<lambda>((j, p, pd, pm), (i, s, d, m)). \<bar>m - pm\<bar> > 4)
               (zip (parsable_steps plan 0) (tl (parsable_steps plan 0)))))"
  using unbalanced_loop_first [of plan 0 "[]"]
  by (simp add: identifyUnbalancedDurations_def unbalanced_pairs_def)


theorem unbalanced_steps_witness:
  "identifyUnbalancedDurations
     [\<lparr>step_id = 1, step_title = Some ''Plan'', step_description = None,
       step_duration = Some ''1-2 hours'', step_resources = None, step_dependencies = None\<rparr>,
      \<lparr>step_id = 2, step_title = Some ''Wait'', step_description = None,
       step_duration = Some ''soon'', step_resources = None, step_dependencies = None\<rparr>,
      \<lparr>step_id = 3, step_title = Some ''Build'', step_description = None,
       step_duration = Some ''6-8 hours'', step_resources = None, step_dependencies = None\<rparr>,
      \<lparr>step_id = 4, step_title = Some ''Test'', step_description = None,
       step_duration = Some ''7-9 hours'', step_resources = None, step_dependencies = None\<rparr>]
   = Inr [\<lparr>ub_step = 3, ub_title = Some ''Build'', ub_duration = ''6-8 hours'',
           ub_difference = 11 / 2\<rparr>]"
  using unbalanced_steps_compare_parsable_neighbours
    [of "[\<lparr>step_id = 1, step_title = Some ''Plan'', step_description = None,
       step_duration = Some ''1-2 hours'', step_resources = None, step_dependencies = None\<rparr>,
      \<lparr>step_id = 2, step_title = Some ''Wait'', step_description = None,
       step_duration = Some ''soon'', step_resources = None, step_dependencies = None\<rparr>,
      \<lparr>step_id = 3, step_title = Some ''Build'', step_description = None,
       step_duration = Some ''6-8 hours'', step_resources = None, step_dependencies = None\<rparr>,
      \<lparr>step_id = 4, step_title = Some ''Test'', step_description = None,
       step_duration = Some ''7-9 hours'', step_resources = None, step_dependencies = None\<rparr>]"]
  by (simp add: match_range_at_def is_digit_def avg_of_match_def parseInt_def digit_val_def)

text \<open>C5 as stated fails: after a step of 10 to 12 hours, a step whose duration does not
  parse would have the midpoint 2 and differ by 9, so the claim flags step 2; the detector
  flags nothing.\<close>

theorem unparsable_step_is_not_compared:
  "identifyUnbalancedDurations
     [\<lparr>step_id = 1, step_title = Some ''Build'', step_description = None,
       step_duration = Some ''10-12 hours'', step_resources = None, step_dependencies = None\<rparr>,
      \<lparr>step_id = 2, step_title = Some ''Ship'', step_description = None,
       step_duration = Some ''soon'', step_resources = None, step_dependencies = None\<rparr>]
   = Inr []
   \<and> claimed_unbalanced_steps [''10-12 hours'', ''soon''] = [2]"
  by (simp add: identifyUnbalancedDurations_def claimed_unbalanced_steps_def duration_midpoint_def
      match_range_at_def is_digit_def avg_of_match_def parseInt_def digit_val_def)

subsection \<open>Risk mitigation score\<close>

lemma mitigation_loop_sum:
  "mitigation_loop plan m t
   = (m + sum_list (map step_mitigation_points plan), t + 3 * length plan)"
  by (induction plan arbitrary: m t) (simp_all add: step_mitigation_points_def)

lemma step_mitigation_points_le: "step_mitigation_points s \<le> 45"
  by (simp add: step_mitigation_points_def)

lemma plan_mitigation_points_le:
  "sum_list (map step_mitigation_points plan) \<le> 45 * length plan"
proof (induction plan)
  case Nil
  show ?case by simp
next
  case (Cons s plan)
  then show ?case using step_mitigation_points_le [of s] by simp
qed

lemma mitigation_quotient_bounds:
  assumes "plan \<noteq> []"
  shows "(0::rat) \<le> of_nat (sum_list (map step_mitigation_points plan))
                      / of_nat (3 * length plan * 10)"
    and "(of_nat (sum_list (map step_mitigation_points plan)) :: rat)
           / of_nat (3 * length plan * 10) \<le> 3 / 2"
proof -
  let ?P = "sum_list (map step_mitigation_points plan)"
  from assms have n: "0 < length plan" by simp
  show "(0::rat) \<le> of_nat ?P / of_nat (3 * length plan * 10)" by simp
  have "2 * ?P \<le> 3 * (3 * length plan * 10)"
    using plan_mitigation_points_le [of plan] by simp
  then have "(of_nat (2 * ?P) :: rat) \<le> of_nat (3 * (3 * length plan * 10))"
    by (simp only: of_nat_le_iff)
  then have "2 * (of_nat ?P :: rat) \<le> 3 * of_nat (3 * length plan * 10)"
    by (simp only: of_nat_mult of_nat_numeral)
  moreover have "(0::rat) < of_nat (3 * length plan * 10)" using n by simp
  ultimately show "(of_nat ?P :: rat) / of_nat (3 * length plan * 10) \<le> 3 / 2"
    by (simp only: pos_divide_le_eq)
qed

lemma min_100_close:
  fixes a b e :: rat
  assumes "\<bar>a - b\<bar> \<le> e"
  shows "\<bar>min 100 a - min 100 b\<bar> \<le> e"
  using assms by linarith

lemma percent_11_12: "js_round (fl (fl (11 / 12) * 100)) = 92"
  by code_simp

text \<open>C4: for the empty plan the risk mitigation score is \<open>NaN\<close>, not an integer. For every
  other plan it is the integer \<open>min(100, round((points / (3 \<times> stepCount \<times> 10)) \<times> 100))\<close> with the
  quotient and the product rounded to doubles, where the points are 20 for each step whose
  description mentions mitigation, 15 for each step with a backup resource and 10 for each
  step with fewer than 3 dependencies; it lies between 0 and 100 and is within a half (and a
  rounding error) of \<open>min(100, 100 \<times> points / (3 \<times> stepCount \<times> 10))\<close>. It is not always the
  rounded exact quotient: 345 points over 20 steps give 57, where the exact quotient 57.5
  rounds to 58.\<close>

theorem risk_mitigation_score_of_empty_and_nonempty_plans:
  "assessRiskMitigation [] = None
   \<and> (plan \<noteq> [] \<longrightarrow>
        assessRiskMitigation plan
        = Some (min 100 (js_round (fl (fl (of_nat (sum_list (map step_mitigation_points plan))
                                           / of_nat (3 * length plan * 10)) * 100))))
        \<and> 0 \<le> min 100 (js_round (fl (fl (of_nat (sum_list (map step_mitigation_points plan))
                                           / of_nat (3 * length plan * 10)) * 100)))
        \<and> min 100 (js_round (fl (fl (of_nat (sum_list (map step_mitigation_points plan))
                                           / of_nat (3 * length plan * 10)) * 100))) \<le> 100
        \<and> \<bar>rat_of_int (min 100 (js_round (fl (fl (of_nat (sum_list (map step_mitigation_points plan))
                                           / of_nat (3 * length plan * 10)) * 100))))
           - min 100 (100 * of_nat (sum_list (map step_mitigation_points plan))
                      / of_nat (3 * length plan * 10))\<bar> \<le> 1 / 2 + 1 / 10 ^ 13)
   \<and> assessRiskMitigation
         (replicate 7 \<lparr>step_id = 3, step_title = Some ''Prepare'',
                        step_description = Some ''Mitigate the known risks'',
                        step_duration = Some ''1-2 hours'',
                        step_resources = Some [''Backup server''],
                        step_dependencies = Some []\<rparr>
          @ \<lparr>step_id = 4, step_title = Some ''Review'',
              step_description = Some ''Risk mitigation review'',
              step_duration = Some ''1-2 hours'', step_resources = Some [''Laptop''],
              step_dependencies = Some [3]\<rparr>
          # replicate 12 \<lparr>step_id = 5, step_title = Some ''Run'',
                           step_description = Some ''Run it'',
                           step_duration = Some ''1-2 hours'',
                           step_resources = Some [''Laptop''],
                           step_dependencies = None\<rparr>) = Some 57
   \<and> min 100 (js_round (100 * of_nat (7 * 45 + 30) / of_nat (3 * 20 * 10))) = 58"
proof (intro conjI impI)
  show "assessRiskMitigation [] = None" by (simp add: assessRiskMitigation_def)
next
  assume "plan \<noteq> []"
  then show "assessRiskMitigation plan
        = Some (min 100 (js_round (fl (fl (of_nat (sum_list (map step_mitigation_points plan))
                                           / of_nat (3 * length plan * 10)) * 100))))"
    by (simp add: assessRiskMitigation_def mitigation_loop_sum)
next
  assume "plan \<noteq> []"
  from js_round_percent(2) [OF mitigation_quotient_bounds [OF this]]
  show "0 \<le> min 100 (js_round (fl (fl (of_nat (sum_list (map step_mitigation_points plan))
                                           / of_nat (3 * length plan * 10)) * 100)))"
    by simp
next
  show "min 100 (js_round (fl (fl (of_nat (sum_list (map step_mitigation_points plan))
                                           / of_nat (3 * length plan * 10)) * 100))) \<le> 100"
    by simp
next
  assume "plan \<noteq> []"
  define q :: rat where "q = of_nat (sum_list (map step_mitigation_points plan))
                                           / of_nat (3 * length plan * 10)"
  define r where "r = js_round (fl (fl q * 100))"
  from js_round_percent(1) [OF mitigation_quotient_bounds [OF \<open>plan \<noteq> []\<close>]]
  have "\<bar>of_int r - q * 100\<bar> \<le> 1 / 2 + 1 / 10 ^ 13" by (simp only: q_def r_def)
  then have "\<bar>min 100 (of_int r) - min 100 (q * 100)\<bar> \<le> 1 / 2 + 1 / 10 ^ 13"
    by (rule min_100_close)
  moreover have "(of_int (min 100 r) :: rat) = min 100 (of_int r)" by (simp add: min_def)
  moreover have "q * 100 = 100 * of_nat (sum_list (map step_mitigation_points plan))
                      / of_nat (3 * length plan * 10)" by (simp add: q_def)
  ultimately show "\<bar>rat_of_int (min 100 (js_round (fl (fl (of_nat (sum_list (map step_mitigation_points plan))
                                           / of_nat (3 * length plan * 10)) * 100))))
           - min 100 (100 * of_nat (sum_list (map step_mitigation_points plan))
                      / of_nat (3 * length plan * 10))\<bar> \<le> 1 / 2 + 1 / 10 ^ 13"
    by (simp only: q_def r_def)
next
  show "assessRiskMitigation
         (replicate 7 \<lparr>step_id = 3, step_title = Some ''Prepare'',
                        step_description = Some ''Mitigate the known risks'',
                        step_duration = Some ''1-2 hours'',
                        step_resources = Some [''Backup server''],
                        step_dependencies = Some []\<rparr>
          @ \<lparr>step_id = 4, step_title = Some ''Review'',
              step_description = Some ''Risk mitigation review'',
              step_duration = Some ''1-2 hours'', step_resources = Some [''Laptop''],
              step_dependencies = Some [3]\<rparr>
          # replicate 12 \<lparr>step_id = 5, step_title = Some ''Run'',
                           step_description = Some ''Run it'',
                           step_duration = Some ''1-2 hours'',
                           step_resources = Some [''Laptop''],
                           step_dependencies = None\<rparr>) = Some 57"
    by (simp add: assessRiskMitigation_def mitigation_loop_sum sum_list_replicate
        step_mitigation_points_def toLowerCase_def lower_char_def percent_23_40)
next
  show "min 100 (js_round (100 * of_nat (7 * 45 + 30) / of_nat (3 * 20 * 10))) = 58"
    by (simp add: js_round_def floor_eq_iff)
qed

theorem risk_mitigation_score_witness:
  "assessRiskMitigation
     [\<lparr>step_id = 3, step_title = Some ''Prepare'',
       step_description = Some ''Mitigate the known risks'',
       step_duration = Some ''1-2 hours'', step_resources = Some [''Backup server''],
       step_dependencies = Some []\<rparr>,
      \<lparr>step_id = 4, step_title = Some ''Run'', step_description = Some ''Run it'',
       step_duration = Some ''1-2 hours'', step_resources = Some [''Laptop''],
       step_dependencies = Some [3]\<rparr>] = Some 92"
  using risk_mitigation_score_of_empty_and_nonempty_plans
      [of "[\<lparr>step_id = 3, step_title = Some ''Prepare'',
       step_description = Some ''Mitigate the known risks'',
       step_duration = Some ''1-2 hours'', step_resources = Some [''Backup server''],
       step_dependencies = Some []\<rparr>,
      \<lparr>step_id = 4, step_title = Some ''Run'', step_description = Some ''Run it'',
       step_duration = Some ''1-2 hours'', step_resources = Some [''Laptop''],
       step_dependencies = Some [3]\<rparr>]"]
  by (simp add: step_mitigation_points_def toLowerCase_def lower_char_def percent_11_12)

subsection \<open>Cycle detection on acyclic graphs\<close>

lemma neighbors_prop_key: "neighbors g node = neighbors g (Num (prop_key node))"
  by (simp add: neighbors_def)

lemma edge_of_neighbor: "nb \<in> set (neighbors g node) \<Longrightarrow> (prop_key node, nb) \<in> dependency_edges g"
  using neighbors_prop_key [of g node] by (simp add: dependency_edges_def)

lemma dfs_acyclic_quiet:
  "acyclic (dependency_edges g) \<Longrightarrow> stack_reaches g st (prop_key node)
     \<Longrightarrow> quiet st (prop_key node) (dfs g node path st)"
  "acyclic (dependency_edges g) \<Longrightarrow> stack_reaches g st (prop_key node)
     \<Longrightarrow> set nbs \<subseteq> set (neighbors g node)
     \<Longrightarrow> quiet st (prop_key node) (dfs_for g node path nbs st)"
proof (induction g node path st and g node path nbs st rule: dfs_dfs_for.induct)
  case (1 g node path st)
  show ?case
  proof (cases "prop_key node \<in> visited_keys st")
    case True
    then show ?thesis by (simp add: quiet_def)
  next
    case False
    let ?st1 = "st\<lparr>visited_keys := insert (prop_key node) (visited_keys st),
                    recursionStack_keys := insert (prop_key node) (recursionStack_keys st)\<rparr>"
    have "stack_reaches g ?st1 (prop_key node)"
      using "1.prems" by (simp add: stack_reaches_def)
    from "1.IH" [OF False "1.prems"(1) this] have "quiet ?st1 (prop_key node) (dfs_for g node path (neighbors g node) ?st1)"
      by simp
    with False show ?thesis by (auto simp: quiet_def)
  qed
next
  case (2 g node path st)
  then show ?case by (simp add: quiet_def)
next
  case (3 g node path neighbor rest st)
  note ac = "3.prems"(1)
  note sr = "3.prems"(2)
  from "3.prems" have nb: "neighbor \<in> set (neighbors g node)"
    and rest: "set rest \<subseteq> set (neighbors g node)" by simp_all
  have edge: "(prop_key node, neighbor) \<in> dependency_edges g"
    using nb by (rule edge_of_neighbor)
  show ?case
  proof (cases "neighbor \<in> visited_keys st")
    case False
    have reach: "stack_reaches g st (prop_key (Num neighbor))"
      using sr edge by (auto simp: stack_reaches_def intro: rtrancl_into_rtrancl)
    obtain found st' where r: "dfs g (Num neighbor) (path @ [node]) st = (found, st')"
      by (cases "dfs g (Num neighbor) (path @ [node]) st")
    from "3.IH"(1) [OF False ac reach] r
    have q: "\<not> found" "cycles_found st' = cycles_found st"
      "recursionStack_keys st' \<subseteq> recursionStack_keys st - {neighbor}"
      by (simp_all add: quiet_def)
    have "stack_reaches g st' (prop_key node)"
      using sr q(3) by (auto simp: stack_reaches_def)
    from "3.IH"(2) [OF False r [symmetric] q(1) ac this rest]
    have "quiet st' (prop_key node) (dfs_for g node path rest st')" .
    with False r q show ?thesis by (auto simp: quiet_def)
  next
    case True
    have "neighbor \<notin> recursionStack_keys st"
    proof
      assume "neighbor \<in> recursionStack_keys st"
      with sr have "(neighbor, prop_key node) \<in> (dependency_edges g)\<^sup>*"
        by (simp add: stack_reaches_def)
      from this edge have "(neighbor, neighbor) \<in> (dependency_edges g)\<^sup>+"
        by (rule rtrancl_into_trancl1)
      with ac show False by (simp add: acyclic_def)
    qed
    with True "3.IH"(3) [OF _ this ac sr rest] show ?thesis by simp
  qed
qed

lemma detect_fold_acyclic:
  assumes ac: "acyclic (dependency_edges g)"
  shows "recursionStack_keys st = {} \<Longrightarrow>
         cycles_found (foldl (\<lambda>st k. if k \<notin> visited_keys st then snd (dfs g (Key k) [] st) else st)
                         st ks) = cycles_found st"
proof (induction ks arbitrary: st)
  case Nil
  then show ?case by simp
next
  case (Cons k ks)
  show ?case
  proof (cases "k \<in> visited_keys st")
    case True
    with Cons show ?thesis by simp
  next
    case False
    have "stack_reaches g st (prop_key (Key k))" using Cons.prems by (simp add: stack_reaches_def)
    from dfs_acyclic_quiet(1) [OF ac this, of "[]"]
    have q: "cycles_found (snd (dfs g (Key k) [] st)) = cycles_found st"
      "recursionStack_keys (snd (dfs g (Key k) [] st)) = {}"
      using Cons.prems by (auto simp: quiet_def)
    from Cons.IH [OF q(2)] q(1) False show ?thesis by simp
  qed
qed

lemma detectCircularDependencies_acyclic:
  "acyclic (dependency_edges g) \<Longrightarrow> detectCircularDependencies g = []"
  using detect_fold_acyclic [of g "\<lparr>visited_keys = {}, recursionStack_keys = {}, cycles_found = []\<rparr>" "map fst g"]
  by (simp add: detectCircularDependencies_def)

subsection \<open>The types of the findings of each rule\<close>

lemma feasibility_loop_types:
  "map f_type (feasibility_loop plan index validations)
   = map f_type validations
     @ map (\<lambda>s. if assessStepFeasibility s then passed else warning) plan"
  by (induction plan arbitrary: index validations) (simp_all add: Let_def)

lemma list_all_f_type: "list_all (\<lambda>v. f_type v = t) vs = list_all (\<lambda>x. x = t) (map f_type vs)"
  by (simp add: list_all_iff)

lemma list_all_feasible:
  "list_all (\<lambda>x. x = passed) (map (\<lambda>s. if assessStepFeasibility s then passed else warning) plan)
   = list_all assessStepFeasibility plan"
  by (induction plan) simp_all

lemma validateFeasibility_types:
  "map f_type (validateFeasibility plan)
   = map (\<lambda>s. if assessStepFeasibility s then passed else warning) plan
     @ [if list_all assessStepFeasibility plan then passed else warning]"
  by (simp add: validateFeasibility_def Let_def list_all_f_type feasibility_loop_types
      list_all_feasible)

lemma validateResources_types:
  "map f_type (validateResources plan)
   = [if length (foldl (\<lambda>acc s. case step_resources s of None \<Rightarrow> acc
                                     | Some rs \<Rightarrow> foldl set_add acc rs) [] plan) \<le> 10
      then passed else warning]
     @ (if identifyCriticalResources plan = [] then [] else [warning])"
  by (simp add: validateResources_def Let_def)

lemma validateTimeline_types:
  assumes "validateTimeline plan = Inr timeline"
  shows "\<exists>d u. calculatePlanDuration plan = Inr d \<and> identifyUnbalancedDurations plan = Inr u
           \<and> map f_type timeline
             = [if ts_status (assessTimeline d (length plan)) then passed else warning]
               @ (if u = [] then [] else [warning])"
proof (cases "calculatePlanDuration plan")
  case (Inl e)
  with assms show ?thesis by (simp add: validateTimeline_def)
next
  case (Inr d)
  show ?thesis
  proof (cases "identifyUnbalancedDurations plan")
    case (Inl e)
    with Inr assms show ?thesis by (simp add: validateTimeline_def Let_def)
  next
    case u: (Inr u)
    from assms have "map f_type timeline
             = [if ts_status (assessTimeline d (length plan)) then passed else warning]
               @ (if u = [] then [] else [warning])"
      unfolding validateTimeline_def Inr u Let_def by (cases "u = []") auto
    with Inr u show ?thesis by simp
  qed
qed


lemma validateRisks_types:
  "map f_type (validateRisks this plan)
   = (if filter (\<lambda>r. risk_level r = high) (identifyRisks this plan) = [] then [] else [warning])
     @ (if filter (\<lambda>r. risk_level r = medium) (identifyRisks this plan) = [] then [] else [warning])
     @ [if (case assessRiskMitigation plan of None \<Rightarrow> False | Some m \<Rightarrow> m \<ge> 70)
        then passed else warning]"
  by (simp add: validateRisks_def Let_def)

lemma failed_only_circular:
  "v \<in> set (validateDependencies plan) \<Longrightarrow> f_type v = failed
   \<Longrightarrow> f_id v = ''circular-dependencies''
       \<and> detectCircularDependencies (buildDependencyGraph plan) \<noteq> []"
  by (auto simp: validateDependencies_def Let_def split: if_splits)

lemma not_failed_feasibility: "failed \<notin> set (map f_type (validateFeasibility plan))"
  by (auto simp: validateFeasibility_types)

lemma not_failed_resources: "failed \<notin> set (map f_type (validateResources plan))"
  by (auto simp: validateResources_types)

lemma not_failed_timeline:
  assumes "validateTimeline plan = Inr timeline"
  shows "failed \<notin> set (map f_type timeline)"
proof -
  from validateTimeline_types [OF assms] obtain d and u :: "unbalanced_step list" where
    "map f_type timeline
     = [if ts_status (assessTimeline d (length plan)) then passed else warning]
       @ (if u = [] then [] else [warning])"
    by blast
  then show ?thesis by (simp split: if_splits)
qed

lemma not_failed_risks: "failed \<notin> set (map f_type (validateRisks this plan))"
  by (auto simp: validateRisks_types)

subsection \<open>Failed findings\<close>

lemma validatePlan_success:
  "validatePlan this task (Some plan) = Inr (Success vs sc sm recs) \<Longrightarrow>
   (\<exists>timeline. validateTimeline plan = Inr timeline
      \<and> vs = validateFeasibility plan @ validateResources plan @ timeline
             @ validateDependencies plan @ validateRisks this plan)
   \<and> sc = calculateValidationScore vs
   \<and> sm = generateValidationSummary vs sc
   \<and> recs = generateRecommendations vs"
  by (auto simp: validatePlan_def run_validationRules_def Let_def split: sum.splits)

lemma no_high_without_failure:
  "list_all (\<lambda>v. f_type v \<noteq> failed) vs \<Longrightarrow>
   list_all (\<lambda>r. rec_priority r \<noteq> ''High'') (generateRecommendations vs)"
proof -
  assume "list_all (\<lambda>v. f_type v \<noteq> failed) vs"
  then have "filter (\<lambda>v. f_type v = failed) vs = []"
    by (simp add: filter_empty_conv list_all_iff)
  then show ?thesis by (simp add: generateRecommendations_def Let_def)
qed

text \<open>C10: in a successful result a finding of type \<open>failed\<close> is the
  \<open>circular-dependencies\<close> finding of the dependency rule; the findings of the feasibility,
  resource, timeline and risk rules are never \<open>failed\<close>; and when the dependency graph of
  the plan is acyclic no finding is \<open>failed\<close> and no recommendation has the priority
  \<open>High\<close>.\<close>

theorem only_the_circular_dependencies_finding_can_fail:
  "validatePlan this task (Some plan) = Inr (Success vs sc sm recs) \<longrightarrow>
     (\<forall>v \<in> set vs. f_type v = failed \<longrightarrow>
        f_id v = ''circular-dependencies'' \<and> v \<in> set (validateDependencies plan))
     \<and> list_all (\<lambda>v. f_type v \<noteq> failed)
          (validateFeasibility plan @ validateResources plan @ validateRisks this plan)
     \<and> (\<forall>timeline. validateTimeline plan = Inr timeline \<longrightarrow>
          list_all (\<lambda>v. f_type v \<noteq> failed) timeline)
     \<and> (acyclic (dependency_edges (buildDependencyGraph plan)) \<longrightarrow>
          list_all (\<lambda>v. f_type v \<noteq> failed) vs
          \<and> list_all (\<lambda>r. rec_priority r \<noteq> ''High'') recs)"
proof
  assume ok: "validatePlan this task (Some plan) = Inr (Success vs sc sm recs)"
  from validatePlan_success [OF ok] obtain timeline where
    tl: "validateTimeline plan = Inr timeline"
    and vs: "vs = validateFeasibility plan @ validateResources plan @ timeline
             @ validateDependencies plan @ validateRisks this plan"
    and recs: "recs = generateRecommendations vs"
    by blast
  have nf_f: "f_type v \<noteq> failed" if "v \<in> set (validateFeasibility plan)" for v
    using that not_failed_feasibility [of plan] by force
  have nf_r: "f_type v \<noteq> failed" if "v \<in> set (validateResources plan)" for v
    using that not_failed_resources [of plan] by force
  have nf_k: "f_type v \<noteq> failed" if "v \<in> set (validateRisks this plan)" for v
    using that not_failed_risks [of this plan] by force
  have nf_t: "f_type v \<noteq> failed" if "validateTimeline plan = Inr t" "v \<in> set t" for v t
    using that not_failed_timeline [of plan t] by force
  have a: "\<forall>v \<in> set vs. f_type v = failed \<longrightarrow>
        f_id v = ''circular-dependencies'' \<and> v \<in> set (validateDependencies plan)"
  proof (intro ballI impI)
    fix v assume v: "v \<in> set vs" and f: "f_type v = failed"
    from v vs f nf_f nf_r nf_k nf_t [OF tl] have "v \<in> set (validateDependencies plan)"
      by auto
    with failed_only_circular [OF this f]
    show "f_id v = ''circular-dependencies'' \<and> v \<in> set (validateDependencies plan)" by simp
  qed
  have b: "list_all (\<lambda>v. f_type v \<noteq> failed)
          (validateFeasibility plan @ validateResources plan @ validateRisks this plan)"
    using nf_f nf_r nf_k by (auto simp: list_all_iff)
  have c: "\<forall>timeline. validateTimeline plan = Inr timeline \<longrightarrow>
          list_all (\<lambda>v. f_type v \<noteq> failed) timeline"
    using nf_t by (auto simp: list_all_iff)
  have d: "list_all (\<lambda>v. f_type v \<noteq> failed) vs
          \<and> list_all (\<lambda>r. rec_priority r \<noteq> ''High'') recs"
    if ac: "acyclic (dependency_edges (buildDependencyGraph plan))"
  proof -
    from detectCircularDependencies_acyclic [OF ac]
    have "detectCircularDependencies (buildDependencyGraph plan) = []" .
    with a failed_only_circular have "\<forall>v \<in> set vs. f_type v \<noteq> failed" by blast
    then have "list_all (\<lambda>v. f_type v \<noteq> failed) vs" by (simp add: list_all_iff)
    with no_high_without_failure [OF this] recs show ?thesis by simp
  qed
  from a b c d show "(\<forall>v \<in> set vs. f_type v = failed \<longrightarrow>
        f_id v = ''circular-dependencies'' \<and> v \<in> set (validateDependencies plan))
     \<and> list_all (\<lambda>v. f_type v \<noteq> failed)
          (validateFeasibility plan @ validateResources plan @ validateRisks this plan)
     \<and> (\<forall>timeline. validateTimeline plan = Inr timeline \<longrightarrow>
          list_all (\<lambda>v. f_type v \<noteq> failed) timeline)
     \<and> (acyclic (dependency_edges (buildDependencyGraph plan)) \<longrightarrow>
          list_all (\<lambda>v. f_type v \<noteq> failed) vs
          \<and> list_all (\<lambda>r. rec_priority r \<noteq> ''High'') recs)"
    by blast
qed


lemma totalHours_loop_returns:
  "list_all (\<lambda>s. step_duration s \<noteq> None) plan \<Longrightarrow> \<exists>t. totalHours_loop plan acc = Inr t"
  by (induction plan arbitrary: acc) (auto split: option.splits)

lemma unbalanced_loop_returns:
  "list_all (\<lambda>s. step_duration s \<noteq> None) plan \<Longrightarrow>
   \<exists>u. unbalanced_loop plan index previous unbalanced = Inr u"
  by (induction plan arbitrary: index previous unbalanced) (auto split: option.splits simp: Let_def)

lemma validateTimeline_returns:
  assumes "list_all (\<lambda>s. step_duration s \<noteq> None) plan"
  shows "\<exists>timeline. validateTimeline plan = Inr timeline"
proof -
  from totalHours_loop_returns [OF assms, of 0] obtain t where "totalHours_loop plan 0 = Inr t"
    by blast
  then obtain d where d: "calculatePlanDuration plan = Inr d"
    by (simp add: calculatePlanDuration_def)
  from unbalanced_loop_returns [OF assms, of 0 None "[]"] obtain u where
    u: "identifyUnbalancedDurations plan = Inr u"
    by (auto simp: identifyUnbalancedDurations_def)
  show ?thesis unfolding validateTimeline_def d u Let_def by simp
qed

theorem acyclic_plan_has_no_failed_finding_witness:
  "(case validatePlan new_ValidatorAgent ''launch''
           (Some [\<lparr>step_id = 3, step_title = Some ''Design'',
                    step_description = Some ''Sketch the layout'',
                    step_duration = Some ''2-3 hours'', step_resources = Some [''Pen''],
                    step_dependencies = Some []\<rparr>,
                  \<lparr>step_id = 4, step_title = Some ''Build'',
                    step_description = Some ''Assemble the parts'',
                    step_duration = Some ''4-6 hours'', step_resources = Some [''Tools''],
                    step_dependencies = Some [3]\<rparr>]) of
      Inl e \<Rightarrow> False
    | Inr (Failure e vs) \<Rightarrow> False
    | Inr (Success vs sc sm recs) \<Rightarrow>
        list_all (\<lambda>v. f_type v \<noteq> failed) vs
        \<and> list_all (\<lambda>r. rec_priority r \<noteq> ''High'') recs)"
proof -
  let ?P = "[\<lparr>step_id = 3, step_title = Some ''Design'',
                    step_description = Some ''Sketch the layout'',
                    step_duration = Some ''2-3 hours'', step_resources = Some [''Pen''],
                    step_dependencies = Some []\<rparr>,
                  \<lparr>step_id = 4, step_title = Some ''Build'',
                    step_description = Some ''Assemble the parts'',
                    step_duration = Some ''4-6 hours'', step_resources = Some [''Tools''],
                    step_dependencies = Some [3]\<rparr>]"
  have "list_all (\<lambda>s. step_duration s \<noteq> None) ?P" by simp
  from validateTimeline_returns [OF this] obtain timeline where
    tl: "validateTimeline ?P = Inr timeline" by blast
  let ?vs = "validateFeasibility ?P @ validateResources ?P @ timeline
             @ validateDependencies ?P @ validateRisks new_ValidatorAgent ?P"
  have ok: "validatePlan new_ValidatorAgent ''launch'' (Some ?P)
        = Inr (Success ?vs (calculateValidationScore ?vs)
                 (generateValidationSummary ?vs (calculateValidationScore ?vs))
                 (generateRecommendations ?vs))"
  proof -
    have "run_validationRules new_ValidatorAgent ''launch'' ?P = Inr ?vs"
      by (simp only: run_validationRules_def tl sum.case)
    then show ?thesis
      by (simp only: validatePlan_def option.case sum.case Let_def)
  qed
  have g: "buildDependencyGraph ?P = [(3, []), (4, [3])]"
    by (simp add: buildDependencyGraph_def)
  have "dependency_edges [(3, []), (4, [3])] = {(4, 3)}"
    by (auto simp: dependency_edges_def neighbors_def split: if_splits)
  then have ac: "acyclic (dependency_edges (buildDependencyGraph ?P))"
    by (simp add: g) (simp add: acyclic_def)
  from only_the_circular_dependencies_finding_can_fail
    [of new_ValidatorAgent "''launch''" ?P ?vs "calculateValidationScore ?vs"
        "generateValidationSummary ?vs (calculateValidationScore ?vs)"
        "generateRecommendations ?vs"] ok ac
  have "list_all (\<lambda>v. f_type v \<noteq> failed) ?vs
        \<and> list_all (\<lambda>r. rec_priority r \<noteq> ''High'') (generateRecommendations ?vs)"
    by blast
  then show ?thesis unfolding ok by simp
qed

subsection \<open>Exceptions of the entry point\<close>

text \<open>C2: when the plan is \<open>null\<close> or \<open>undefined\<close> the call rejects with a \<open>TypeError\<close>,
  because the log line before the \<open>try\<close> block reads \<open>plan.length\<close>. For every plan that is
  an array the call resolves: with the findings of the five rules, or, when a rule threw,
  with \<open>success: false\<close> and exactly the two fallback findings; a step without a duration
  is such a case.\<close>

theorem validatePlan_rejects_when_the_plan_is_missing:
  "validatePlan this task None = Inl (TypeError ''length'')
   \<and> (case validatePlan this task (Some plan) of
         Inl e \<Rightarrow> False
       | Inr (Success vs sc sm recs) \<Rightarrow> run_validationRules this task plan = Inr vs
       | Inr (Failure e vs) \<Rightarrow>
           run_validationRules this task plan = Inl e
           \<and> vs = [\<lparr>f_id = ''fallback-1'', f_type = passed, f_title = ''Basic Structure'',
                      f_message = ''Plan has basic structure and steps'', f_details = None\<rparr>,
                    \<lparr>f_id = ''fallback-2'', f_type = warning, f_title = ''Limited Detail'',
                      f_message = ''Plan lacks detailed validation due to system limitations'',
                      f_details = None\<rparr>])
   \<and> validatePlan this task (Some [s\<lparr>step_duration := None\<rparr>])
       = Inr (Failure (TypeError ''match'') getFallbackValidations)"
  by (simp add: validatePlan_def run_validationRules_def validateTimeline_def
      calculatePlanDuration_def getFallbackValidations_def Let_def split: sum.splits)

subsection \<open>The validation score\<close>


















subsection \<open>A plan whose score rounds to 100\<close>


























end
